theory Spec2Isabelle
  imports Main "HOL-Library.Word" "HOL-Library.Sublist" "HOL-Library.Product_Lexorder"
begin

unbundle bit_operations_syntax

section \<open>Python values\<close>

text \<open>
  The module \<^verbatim>\<open>conda_kapsel/env_spec.py\<close> handles Python objects that come out of a YAML
  parser and go into a YAML emitter: \<^verbatim>\<open>None\<close>, booleans, integers, strings, lists and
  (ordered) mappings. A Python \<^verbatim>\<open>str\<close> is represented by the bytes of its UTF-8 encoding (an
  Isabelle \<^typ>\<open>char\<close> is one byte), which is faithful for everything the module does with
  strings: comparison, concatenation, splitting at \<^verbatim>\<open>/\<close>, emptiness, hashing of the encoded
  bytes. Floats and the other YAML scalar types are not part of the model. A mapping is an
  association list in document order.
\<close>

datatype pyval =
    PNone
  | PBool bool
  | PInt int
  | PStr string
  | PList "pyval list"
  | PDict "(pyval \<times> pyval) list"

text \<open>The exceptions that the modelled code can raise; a raise is the value \<open>Inl e\<close>.\<close>

datatype exn =
    IOError
  | YAMLError
  | UnicodeDecodeError
  | TypeError
  | KeyError
  | AttributeError
  | AssertionError

text \<open>Sequencing: the second computation runs on the value of the first, unless that raised.\<close>

definition exn_bind :: "exn + 'a \<Rightarrow> ('a \<Rightarrow> exn + 'b) \<Rightarrow> exn + 'b" where
  "exn_bind r f = (case r of Inl e \<Rightarrow> Inl e | Inr v \<Rightarrow> f v)"

text \<open>
  A sequence is a list or a tuple. Both are iterated alike, but \<^verbatim>\<open>+\<close> on a list takes a
  list only: \<^verbatim>\<open>[1] + (2,)\<close> raises \<^verbatim>\<open>TypeError\<close>.
\<close>

datatype 'a pyseq = PyList "'a list" | PyTuple "'a list"

fun elements :: "'a pyseq \<Rightarrow> 'a list" where
  "elements (PyList xs) = xs"
| "elements (PyTuple xs) = xs"

fun list_add :: "'a list \<Rightarrow> 'a pyseq \<Rightarrow> exn + 'a list" where
  "list_add xs (PyList ys) = Inr (xs @ ys)"
| "list_add xs (PyTuple ys) = Inl TypeError"

text \<open>Truth value of an object, as \<^verbatim>\<open>if x:\<close> and \<^verbatim>\<open>not x\<close> test it.\<close>

fun truthy :: "pyval \<Rightarrow> bool" where
  "truthy PNone = False"
| "truthy (PBool b) = b"
| "truthy (PInt i) = (i \<noteq> 0)"
| "truthy (PStr s) = (s \<noteq> [])"
| "truthy (PList xs) = (xs \<noteq> [])"
| "truthy (PDict kvs) = (kvs \<noteq> [])"

text \<open>
  Python's \<^verbatim>\<open>==\<close>: structural, except that a boolean equals the integer 0 or 1
  (\<^verbatim>\<open>True == 1\<close>). Ordered mappings compare entry by entry, in order.
\<close>

primrec py_norm :: "pyval \<Rightarrow> pyval" where
  "py_norm PNone = PNone"
| "py_norm (PBool b) = PInt (if b then 1 else 0)"
| "py_norm (PInt i) = PInt i"
| "py_norm (PStr s) = PStr s"
| "py_norm (PList xs) = PList (map py_norm xs)"
| "py_norm (PDict kvs) = PDict (map (map_prod py_norm py_norm) kvs)"

definition py_eq :: "pyval \<Rightarrow> pyval \<Rightarrow> bool" where
  "py_eq x y = (py_norm x = py_norm y)"

section \<open>The class EnvSpec\<close>

text \<open>
  One field per attribute that \<^verbatim>\<open>__init__\<close> assigns. The public properties \<^verbatim>\<open>name\<close>,
  \<^verbatim>\<open>inherit_from\<close> and \<^verbatim>\<open>inherit_from_name\<close> return their attribute unchanged, so the
  selectors carry the property names; \<^verbatim>\<open>_conda_packages\<close>, \<^verbatim>\<open>_channels\<close>,
  \<^verbatim>\<open>_pip_packages\<close> and \<^verbatim>\<open>_description\<close> are the \<open>own_\<close> selectors, and
  \<^verbatim>\<open>_channels_and_packages_hash\<close> is \<open>hash_cache\<close>. The package and channel
  sequences hold strings, as the constructor's docstring says; the constructor stores each
  as a tuple (\<^verbatim>\<open>tuple(conda_packages)\<close>), so an \<open>own_\<close> field is the list of the elements
  of a tuple.
\<close>

datatype EnvSpec = EnvSpec
  (name: pyval)
  (own_conda_packages: "string list")
  (own_channels: "string list")
  (own_pip_packages: "string list")
  (own_description: pyval)
  (hash_cache: "string option")
  (inherit_from_name: pyval)
  (inherit_from: "EnvSpec option")

text \<open>
  \<^verbatim>\<open>__init__\<close>: the fields are stored, the hash cache starts empty, and the closing
  \<^verbatim>\<open>assert\<close> raises \<^verbatim>\<open>AssertionError\<close> (assertions enabled, the interpreter's default).
\<close>

definition EnvSpec_init ::
  "pyval \<Rightarrow> string list \<Rightarrow> string list \<Rightarrow> string list \<Rightarrow> pyval \<Rightarrow> pyval \<Rightarrow> EnvSpec option
     \<Rightarrow> exn + EnvSpec" where
  "EnvSpec_init nm conda chans pip descr parent_name parent =
     (let self = EnvSpec nm conda chans pip descr None parent_name parent
      in case inherit_from self of
           None \<Rightarrow> Inr self
         | Some p \<Rightarrow>
             if inherit_from_name self \<noteq> PNone \<and> py_eq (inherit_from_name self) (name p)
             then Inr self
             else Inl AssertionError)"

definition description :: "EnvSpec \<Rightarrow> pyval" where
  "description self = (if own_description self = PNone then name self else own_description self)"

subsection \<open>Effective sequences\<close>

definition default_key :: "'a \<Rightarrow> 'a" where
  "default_key item = item"

text \<open>
  \<^verbatim>\<open>_combine_keeping_last_duplicate\<close>. The key function is passed explicitly; the
  source's \<^verbatim>\<open>key_func=None\<close> selects \<open>default_key\<close>, and its only caller passes none.
  \<open>items1\<close> is only iterated, so it is given by its elements; \<open>items2\<close> is iterated and
  then added to the list \<^verbatim>\<open>combined\<close>, which raises \<^verbatim>\<open>TypeError\<close> unless it is a list. The
  result is a tuple, given by its elements.
\<close>

definition combine_keeping_last_duplicate ::
  "'a list \<Rightarrow> 'a pyseq \<Rightarrow> ('a \<Rightarrow> 'k) \<Rightarrow> exn + 'a list" where
  "combine_keeping_last_duplicate items1 items2 key_func =
     (let items2_keys = set (map key_func (elements items2));
          combined = filter (\<lambda>item. key_func item \<notin> items2_keys) items1
      in exn_bind (list_add combined items2) (\<lambda>combined. Inr combined))"

text \<open>The three attribute names that \<^verbatim>\<open>_get_inherited\<close> is called with.\<close>

datatype attr = Conda_packages | Channels | Pip_packages

fun private_attr :: "attr \<Rightarrow> EnvSpec \<Rightarrow> string list" where
  "private_attr Conda_packages self = own_conda_packages self"
| "private_attr Channels self = own_channels self"
| "private_attr Pip_packages self = own_pip_packages self"

text \<open>
  \<^verbatim>\<open>_get_inherited\<close>: \<^verbatim>\<open>getattr(self._inherit_from, public_attr)\<close> is the parent's property
  of the same name, which is the parent's \<^verbatim>\<open>_get_inherited\<close> again and is evaluated
  first; \<^verbatim>\<open>getattr(self, private_attr)\<close> is the own tuple, passed as \<open>items2\<close>. The
  result is a tuple, given by its elements.
\<close>

fun get_inherited :: "attr \<Rightarrow> EnvSpec \<Rightarrow> exn + string list" where
  "get_inherited a (EnvSpec nm conda chans pip descr cache parent_name None) =
     Inr (private_attr a (EnvSpec nm conda chans pip descr cache parent_name None))"
| "get_inherited a (EnvSpec nm conda chans pip descr cache parent_name (Some p)) =
     exn_bind (get_inherited a p) (\<lambda>inherited.
       combine_keeping_last_duplicate inherited
         (PyTuple (private_attr a (EnvSpec nm conda chans pip descr cache parent_name (Some p))))
         default_key)"

definition conda_packages :: "EnvSpec \<Rightarrow> exn + string list" where
  "conda_packages self = get_inherited Conda_packages self"

definition channels :: "EnvSpec \<Rightarrow> exn + string list" where
  "channels self = get_inherited Channels self"

definition pip_packages :: "EnvSpec \<Rightarrow> exn + string list" where
  "pip_packages self = get_inherited Pip_packages self"

subsection \<open>SHA-1, as \<^verbatim>\<open>hashlib.sha1\<close> computes it\<close>

text \<open>
  The digest of FIPS 180: the message is padded with \<open>0x80\<close>, zero bytes and its bit length
  as a 64-bit big-endian number, and compressed in blocks of 64 bytes.
\<close>

type_synonym byte = "8 word"

type_synonym sha1_state = "32 word \<times> 32 word \<times> 32 word \<times> 32 word \<times> 32 word"

definition sha1_padding :: "nat \<Rightarrow> byte list" where
  "sha1_padding n =
     0x80 # replicate ((119 - n mod 64) mod 64) 0
       @ map (\<lambda>i. ucast (drop_bit (8 * i) (word_of_nat (8 * n) :: 64 word)))
           [7, 6, 5, 4, 3, 2, 1, 0]"

definition be32 :: "byte list \<Rightarrow> 32 word" where
  "be32 bs = foldl (\<lambda>acc b. push_bit 8 acc OR ucast b) 0 bs"

definition sha1_schedule :: "byte list \<Rightarrow> 32 word list" where
  "sha1_schedule block =
     foldl (\<lambda>w t. w @ [word_rotl 1
                          (w ! (t - 3) XOR w ! (t - 8) XOR w ! (t - 14) XOR w ! (t - 16))])
       (map (\<lambda>i. be32 (take 4 (drop (4 * i) block))) [0..<16]) [16..<80]"

definition sha1_round :: "32 word list \<Rightarrow> sha1_state \<Rightarrow> nat \<Rightarrow> sha1_state" where
  "sha1_round w st t =
     (case st of (a, b, c, d, e) \<Rightarrow>
        let f = (if t < 20 then (b AND c) OR (NOT b AND d)
                 else if t < 40 then b XOR c XOR d
                 else if t < 60 then (b AND c) OR (b AND d) OR (c AND d)
                 else b XOR c XOR d);
            k = (if t < 20 then 0x5A827999
                 else if t < 40 then 0x6ED9EBA1
                 else if t < 60 then 0x8F1BBCDC
                 else 0xCA62C1D6)
        in (word_rotl 5 a + f + e + k + w ! t, a, word_rotl 30 b, c, d))"

definition sha1_compress :: "sha1_state \<Rightarrow> byte list \<Rightarrow> sha1_state" where
  "sha1_compress h block =
     (case h of (h0, h1, h2, h3, h4) \<Rightarrow>
        (case foldl (sha1_round (sha1_schedule block)) h [0..<80] of
           (a, b, c, d, e) \<Rightarrow> (h0 + a, h1 + b, h2 + c, h3 + d, h4 + e)))"

definition sha1 :: "byte list \<Rightarrow> sha1_state" where
  "sha1 msg =
     (let padded = msg @ sha1_padding (length msg)
      in foldl (\<lambda>h i. sha1_compress h (take 64 (drop (64 * i) padded)))
           (0x67452301, 0xEFCDAB89, 0x98BADCFE, 0x10325476, 0xC3D2E1F0)
           [0..<length padded div 64])"

definition hex32 :: "32 word \<Rightarrow> string" where
  "hex32 w =
     map (\<lambda>i. ''0123456789abcdef'' ! unat (drop_bit (4 * i) w AND 0xF))
       [7, 6, 5, 4, 3, 2, 1, 0]"

text \<open>
  A hash object is the sequence of bytes fed to it so far: \<^verbatim>\<open>update\<close> appends (repeated
  calls are equivalent to one call with the concatenation, as hashlib documents), and
  \<^verbatim>\<open>hexdigest\<close> is the digest of everything fed, in lower-case hexadecimal.
\<close>

type_synonym sha1_object = "byte list"

definition hashlib_sha1 :: sha1_object where
  "hashlib_sha1 = []"

definition update :: "sha1_object \<Rightarrow> byte list \<Rightarrow> sha1_object" where
  "update m data = m @ data"

definition hexdigest :: "sha1_object \<Rightarrow> string" where
  "hexdigest m =
     (case sha1 m of (h0, h1, h2, h3, h4) \<Rightarrow>
        hex32 h0 @ hex32 h1 @ hex32 h2 @ hex32 h3 @ hex32 h4)"

text \<open>\<^verbatim>\<open>p.encode("utf-8")\<close>: a string is held as its UTF-8 bytes already.\<close>

definition encode_utf8 :: "string \<Rightarrow> byte list" where
  "encode_utf8 p = map of_char p"

subsection \<open>The cached hash\<close>

definition set_hash_cache :: "string option \<Rightarrow> EnvSpec \<Rightarrow> EnvSpec" where
  "set_hash_cache v self =
     (case self of EnvSpec nm conda chans pip descr cache parent_name parent \<Rightarrow>
        EnvSpec nm conda chans pip descr v parent_name parent)"

text \<open>
  The property \<^verbatim>\<open>channels_and_packages_hash\<close>. It returns the hash, or the exception
  raised, together with the object after the call: a first call that returns stores the
  value in the cache, one that raises leaves the object as it was.
\<close>

definition channels_and_packages_hash :: "EnvSpec \<Rightarrow> (exn + string) \<times> EnvSpec" where
  "channels_and_packages_hash self =
     (case hash_cache self of
        None \<Rightarrow>
          (case
             (let m = hashlib_sha1 in
              exn_bind (conda_packages self) (\<lambda>conda.
                let m = foldl (\<lambda>m p. update m (encode_utf8 p)) m conda in
              exn_bind (pip_packages self) (\<lambda>pips.
                let m = foldl (\<lambda>m p. update m (encode_utf8 p)) m pips in
              exn_bind (channels self) (\<lambda>chans.
                let m = foldl (\<lambda>m c. update m (encode_utf8 c)) m chans in
                Inr (hexdigest m)))))
           of
             Inl e \<Rightarrow> (Inl e, self)
           | Inr h \<Rightarrow> (Inr h, set_hash_cache (Some h) self))
      | Some h \<Rightarrow> (Inr h, self))"

subsection \<open>Serialisation\<close>

text \<open>
  \<^verbatim>\<open>to_json\<close> reads the properties \<^verbatim>\<open>self.conda_packages\<close>, \<^verbatim>\<open>self.pip_packages\<close> and
  \<^verbatim>\<open>self.channels\<close>, in this order; the result is a mapping with the keys in the order
  of insertion.
\<close>

definition to_json :: "EnvSpec \<Rightarrow> exn + pyval" where
  "to_json self =
     exn_bind (conda_packages self) (\<lambda>conda.
       let packages = map PStr conda in
     exn_bind (pip_packages self) (\<lambda>pips.
       let pips = map PStr pips;
           packages = (if pips \<noteq> [] then packages @ [PDict [(PStr ''pip'', PList pips)]]
                       else packages) in
     exn_bind (channels self) (\<lambda>chans.
       let chans = map PStr chans;
           result = [(PStr ''packages'', PList packages), (PStr ''channels'', PList chans)]
       in Inr (if inherit_from_name self \<noteq> PNone
               then PDict (result @ [(PStr ''inherit_from'', inherit_from_name self)])
               else PDict result))))"

section \<open>Loading an environment.yml\<close>

text \<open>
  The operations of Python objects that the loader applies to the parsed document, each
  with a string key: \<^verbatim>\<open>key in obj\<close> (membership in a mapping or a list, substring of a
  string, \<^verbatim>\<open>TypeError\<close> otherwise), \<^verbatim>\<open>obj[key]\<close> and \<^verbatim>\<open>obj.get(key, default)\<close>.
\<close>

fun py_contains :: "pyval \<Rightarrow> string \<Rightarrow> exn + bool" where
  "py_contains (PDict kvs) k = Inr (map_of kvs (PStr k) \<noteq> None)"
| "py_contains (PList xs) k = Inr (PStr k \<in> set xs)"
| "py_contains (PStr s) k = Inr (sublist k s)"
| "py_contains PNone k = Inl TypeError"
| "py_contains (PBool b) k = Inl TypeError"
| "py_contains (PInt i) k = Inl TypeError"

fun py_getitem :: "pyval \<Rightarrow> string \<Rightarrow> exn + pyval" where
  "py_getitem (PDict kvs) k = (case map_of kvs (PStr k) of None \<Rightarrow> Inl KeyError | Some v \<Rightarrow> Inr v)"
| "py_getitem PNone k = Inl TypeError"
| "py_getitem (PBool b) k = Inl TypeError"
| "py_getitem (PInt i) k = Inl TypeError"
| "py_getitem (PStr s) k = Inl TypeError"
| "py_getitem (PList xs) k = Inl TypeError"

fun py_get :: "pyval \<Rightarrow> string \<Rightarrow> pyval \<Rightarrow> exn + pyval" where
  "py_get (PDict kvs) k d = Inr (case map_of kvs (PStr k) of None \<Rightarrow> d | Some v \<Rightarrow> v)"
| "py_get PNone k d = Inl AttributeError"
| "py_get (PBool b) k d = Inl AttributeError"
| "py_get (PInt i) k d = Inl AttributeError"
| "py_get (PStr s) k d = Inl AttributeError"
| "py_get (PList xs) k d = Inl AttributeError"

text \<open>\<^verbatim>\<open>os.path.basename\<close> (POSIX): what follows the last \<^verbatim>\<open>/\<close>; not a path: \<^verbatim>\<open>TypeError\<close>.\<close>

definition basename :: "string \<Rightarrow> string" where
  "basename p = rev (takeWhile (\<lambda>c. c \<noteq> CHR ''/'') (rev p))"

fun os_path_basename :: "pyval \<Rightarrow> exn + pyval" where
  "os_path_basename (PStr p) = Inr (PStr (basename p))"
| "os_path_basename PNone = Inl TypeError"
| "os_path_basename (PBool b) = Inl TypeError"
| "os_path_basename (PInt i) = Inl TypeError"
| "os_path_basename (PList xs) = Inl TypeError"
| "os_path_basename (PDict kvs) = Inl TypeError"

text \<open>
  The file system maps a path to the bytes of the file, or to \<open>None\<close> when opening or
  reading it raises \<^verbatim>\<open>IOError\<close> (no such file, no permission, a directory).
  \<^verbatim>\<open>codecs.open(filename, 'r', 'utf-8')\<close> followed by \<^verbatim>\<open>read()\<close> decodes the bytes with the
  incremental decoder of the stream reader (CPython 3): a byte that cannot start or
  continue a sequence raises \<^verbatim>\<open>UnicodeDecodeError\<close>, while a sequence that the end of the
  file cuts short is kept back for a next read that never comes, so the decoded text ends
  before it. At the end of the data the decoder also keeps back the lead byte \<open>0xED\<close>
  with one continuation byte of a surrogate. The decoded string is held as the bytes
  decoded; \<open>utf_8_decode\<close> returns them, or \<open>None\<close> for the error.
\<close>

type_synonym filesystem = "string \<Rightarrow> string option"

text \<open>The number of a byte, as \<^verbatim>\<open>ord\<close> gives it.\<close>

definition ord :: "char \<Rightarrow> nat" where
  "ord c = of_char c"

definition continuation :: "char \<Rightarrow> bool" where
  "continuation c = (0x80 \<le> ord c \<and> ord c \<le> 0xBF)"

definition second_of_three :: "char \<Rightarrow> char \<Rightarrow> bool" where
  "second_of_three b c1 =
     (if ord b = 0xE0 then 0xA0 \<le> ord c1 \<and> ord c1 \<le> 0xBF
      else if ord b = 0xED then 0x80 \<le> ord c1 \<and> ord c1 \<le> 0x9F
      else continuation c1)"

definition second_of_four :: "char \<Rightarrow> char \<Rightarrow> bool" where
  "second_of_four b c1 =
     (if ord b = 0xF0 then 0x90 \<le> ord c1 \<and> ord c1 \<le> 0xBF
      else if ord b = 0xF4 then 0x80 \<le> ord c1 \<and> ord c1 \<le> 0x8F
      else continuation c1)"

fun utf_8_decode :: "string \<Rightarrow> string option" where
  "utf_8_decode [] = Some []"
| "utf_8_decode (b # bs) =
     (if ord b < 0x80 then map_option (\<lambda>d. b # d) (utf_8_decode bs)
      else if 0xC2 \<le> ord b \<and> ord b \<le> 0xDF then
        (case bs of
           [] \<Rightarrow> Some []
         | c1 # r \<Rightarrow>
             if continuation c1 then map_option (\<lambda>d. b # c1 # d) (utf_8_decode r) else None)
      else if 0xE0 \<le> ord b \<and> ord b \<le> 0xEF then
        (case bs of
           [] \<Rightarrow> Some []
         | [c1] \<Rightarrow>
             if second_of_three b c1 \<or> ord b = 0xED \<and> continuation c1 then Some [] else None
         | c1 # c2 # r \<Rightarrow>
             if second_of_three b c1 \<and> continuation c2
             then map_option (\<lambda>d. b # c1 # c2 # d) (utf_8_decode r) else None)
      else if 0xF0 \<le> ord b \<and> ord b \<le> 0xF4 then
        (case bs of
           [] \<Rightarrow> Some []
         | [c1] \<Rightarrow> if second_of_four b c1 then Some [] else None
         | [c1, c2] \<Rightarrow> if second_of_four b c1 \<and> continuation c2 then Some [] else None
         | c1 # c2 # c3 # r \<Rightarrow>
             if second_of_four b c1 \<and> continuation c2 \<and> continuation c3
             then map_option (\<lambda>d. b # c1 # c2 # c3 # d) (utf_8_decode r) else None)
      else None)"

definition codecs_open_read :: "filesystem \<Rightarrow> string \<Rightarrow> exn + string" where
  "codecs_open_read fs filename =
     (case fs filename of
        None \<Rightarrow> Inl IOError
      | Some bytes \<Rightarrow>
          (case utf_8_decode bytes of
             None \<Rightarrow> Inl UnicodeDecodeError
           | Some decoded \<Rightarrow> Inr decoded))"

text \<open>Lines 188 to 196 of \<^verbatim>\<open>_load_environment_yml\<close>: the name of the loaded spec.\<close>

definition environment_yml_name :: "pyval \<Rightarrow> string \<Rightarrow> exn + pyval" where
  "environment_yml_name yaml filename =
     exn_bind (py_contains yaml ''name'') (\<lambda>has_name.
     exn_bind (if has_name then py_getitem yaml ''name'' else Inr PNone) (\<lambda>nm.
     exn_bind
       (if \<not> truthy nm then
          exn_bind (py_contains yaml ''prefix'') (\<lambda>has_prefix.
            if has_prefix then
              exn_bind (py_getitem yaml ''prefix'') (\<lambda>prefix.
                if truthy prefix then os_path_basename prefix else Inr nm)
            else Inr nm)
        else Inr nm) (\<lambda>nm.
     if \<not> truthy nm then os_path_basename (PStr filename) else Inr nm)))"

text \<open>
  The loop over \<^verbatim>\<open>raw_dependencies\<close>: one step appends a string to the conda packages,
  or the strings of a \<^verbatim>\<open>pip\<close> list to the pip packages, and skips anything else.
\<close>

definition add_dependency :: "string list \<times> string list \<Rightarrow> pyval \<Rightarrow> string list \<times> string list" where
  "add_dependency acc dep =
     (case acc of (conda, pips) \<Rightarrow>
        (case dep of
           PStr s \<Rightarrow> (conda @ [s], pips)
         | PDict kvs \<Rightarrow>
             (case map_of kvs (PStr ''pip'') of
                Some (PList pip_deps) \<Rightarrow>
                  (conda,
                   foldl (\<lambda>pips pip_dep. case pip_dep of PStr s \<Rightarrow> pips @ [s] | _ \<Rightarrow> pips)
                     pips pip_deps)
              | _ \<Rightarrow> (conda, pips))
         | _ \<Rightarrow> (conda, pips)))"

definition list_or_empty :: "pyval \<Rightarrow> pyval list" where
  "list_or_empty v = (case v of PList xs \<Rightarrow> xs | _ \<Rightarrow> [])"

text \<open>Lines 188 to 229: from the parsed document to the \<^verbatim>\<open>EnvSpec\<close>.\<close>

definition environment_yml_spec :: "pyval \<Rightarrow> string \<Rightarrow> exn + EnvSpec" where
  "environment_yml_spec yaml filename =
     exn_bind (environment_yml_name yaml filename) (\<lambda>nm.
     exn_bind (py_get yaml ''dependencies'' (PList [])) (\<lambda>raw_dependencies.
     exn_bind (py_get yaml ''channels'' (PList [])) (\<lambda>raw_channels.
       let (conda, pips) = foldl add_dependency ([], []) (list_or_empty raw_dependencies);
           chans = foldl (\<lambda>chans channel. case channel of PStr s \<Rightarrow> chans @ [s] | _ \<Rightarrow> chans)
                     [] (list_or_empty raw_channels)
       in EnvSpec_init nm conda chans pips PNone PNone None)))"

text \<open>
  \<^verbatim>\<open>_load_environment_yml\<close>. The helper \<^verbatim>\<open>_load_string\<close> of \<^verbatim>\<open>conda_kapsel.yaml_file\<close>
  is a parameter: it returns the parsed document or raises. The \<^verbatim>\<open>except\<close> clause catches
  \<^verbatim>\<open>IOError\<close> and the YAML error and nothing else.
\<close>

definition load_environment_yml ::
  "filesystem \<Rightarrow> (string \<Rightarrow> exn + pyval) \<Rightarrow> string \<Rightarrow> exn + EnvSpec option" where
  "load_environment_yml fs load_string filename =
     (case exn_bind (codecs_open_read fs filename) load_string of
        Inl e \<Rightarrow> if e = IOError \<or> e = YAMLError then Inr None else Inl e
      | Inr yaml \<Rightarrow> exn_bind (environment_yml_spec yaml filename) (\<lambda>spec. Inr (Some spec)))"

section \<open>The sync check\<close>



section \<open>The diff\<close>

subsection \<open>\<^verbatim>\<open>difflib.SequenceMatcher\<close> without a junk function\<close>

text \<open>
  \<^verbatim>\<open>diff_from\<close> calls \<^verbatim>\<open>difflib.ndiff\<close> of the standard library, which compares the two
  sequences with \<^verbatim>\<open>SequenceMatcher(None, a, b)\<close>: no junk, and the automatic heuristic
  that treats an element of \<open>b\<close> as popular when \<open>b\<close> has at least 200 elements and
  more than one per cent of them (plus one) are that element. \<open>b2j\<close> maps an element to
  the ascending indices where it occurs in \<open>b\<close>, popular elements to none. A match is
  \<open>(i, j, k)\<close>: \<open>a[i:i+k] == b[j:j+k]\<close>.
\<close>

type_synonym block = "nat \<times> nat \<times> nat"

definition popular :: "'a list \<Rightarrow> 'a \<Rightarrow> bool" where
  "popular b elt = (200 \<le> length b \<and> length b div 100 + 1 < count_list b elt)"

definition b2j :: "'a list \<Rightarrow> 'a \<Rightarrow> nat list" where
  "b2j b elt = (if popular b elt then [] else filter (\<lambda>j. b ! j = elt) [0..<length b])"

text \<open>
  \<^verbatim>\<open>find_longest_match\<close>, the inner loop over the indices \<open>j\<close> of \<open>b2j[a[i]]\<close>:
  indices below \<open>blo\<close> are skipped, the loop stops at the first index from \<open>bhi\<close> on;
  \<open>j2len\<close> is the dictionary of the previous row, read with default 0.
\<close>

fun longest_match_row ::
  "(nat \<Rightarrow> nat) \<Rightarrow> nat \<Rightarrow> nat \<Rightarrow> nat \<Rightarrow> nat list \<Rightarrow> (nat \<Rightarrow> nat) \<times> block \<Rightarrow> (nat \<Rightarrow> nat) \<times> block" where
  "longest_match_row j2len i blo bhi [] st = st"
| "longest_match_row j2len i blo bhi (j # js) (newj2len, besti, bestj, bestsize) =
     (if j < blo then longest_match_row j2len i blo bhi js (newj2len, besti, bestj, bestsize)
      else if bhi \<le> j then (newj2len, besti, bestj, bestsize)
      else
        let k = (if j = 0 then 0 else j2len (j - 1)) + 1
        in longest_match_row j2len i blo bhi js
             (newj2len(j := k),
              if bestsize < k then (i + 1 - k, j + 1 - k, k) else (besti, bestj, bestsize)))"

definition longest_match_scan :: "'a list \<Rightarrow> 'a list \<Rightarrow> nat \<Rightarrow> nat \<Rightarrow> nat \<Rightarrow> nat \<Rightarrow> (nat \<Rightarrow> nat) \<times> block" where
  "longest_match_scan a b alo ahi blo bhi =
     foldl (\<lambda>(j2len, best) i. longest_match_row j2len i blo bhi (b2j b (a ! i)) (\<lambda>j. 0, best))
       (\<lambda>j. 0, alo, blo, 0) [alo..<ahi]"

text \<open>
  The two \<^verbatim>\<open>while\<close> loops that extend the best match by equal elements on each end.
  The two loops after them extend by junk elements and never run: there is no junk.
\<close>

function extend_left :: "'a list \<Rightarrow> 'a list \<Rightarrow> nat \<Rightarrow> nat \<Rightarrow> block \<Rightarrow> block" where
  "extend_left a b alo blo (besti, bestj, bestsize) =
     (if alo < besti \<and> blo < bestj \<and> a ! (besti - 1) = b ! (bestj - 1)
      then extend_left a b alo blo (besti - 1, bestj - 1, bestsize + 1)
      else (besti, bestj, bestsize))"
  by pat_completeness auto
termination
  by (relation "measure (\<lambda>(a, b, alo, blo, besti, bestj, bestsize). besti)") auto

declare extend_left.simps [simp del]

function extend_right :: "'a list \<Rightarrow> 'a list \<Rightarrow> nat \<Rightarrow> nat \<Rightarrow> block \<Rightarrow> block" where
  "extend_right a b ahi bhi (besti, bestj, bestsize) =
     (if besti + bestsize < ahi \<and> bestj + bestsize < bhi
         \<and> a ! (besti + bestsize) = b ! (bestj + bestsize)
      then extend_right a b ahi bhi (besti, bestj, bestsize + 1)
      else (besti, bestj, bestsize))"
  by pat_completeness auto
termination
  by (relation "measure (\<lambda>(a, b, ahi, bhi, besti, bestj, bestsize). ahi - (besti + bestsize))") auto

declare extend_right.simps [simp del]

definition find_longest_match :: "'a list \<Rightarrow> 'a list \<Rightarrow> nat \<Rightarrow> nat \<Rightarrow> nat \<Rightarrow> nat \<Rightarrow> block" where
  "find_longest_match a b alo ahi blo bhi =
     extend_right a b ahi bhi
       (extend_left a b alo blo (snd (longest_match_scan a b alo ahi blo bhi)))"

text \<open>
  \<^verbatim>\<open>get_matching_blocks\<close>: the loop over the queue, whose last element is taken first
  (the head of the list here), then the sort, the merge of adjacent blocks and the final
  sentinel.
\<close>

function matching_blocks_loop ::
  "'a list \<Rightarrow> 'a list \<Rightarrow> (nat \<times> nat \<times> nat \<times> nat) list \<Rightarrow> block list \<Rightarrow> block list" where
  "matching_blocks_loop a b [] matching_blocks = matching_blocks"
| "matching_blocks_loop a b ((alo, ahi, blo, bhi) # queue) matching_blocks =
     (case find_longest_match a b alo ahi blo bhi of
        (i, j, k) \<Rightarrow>
          if k \<noteq> 0 then
            matching_blocks_loop a b
              ((if i + k < ahi \<and> j + k < bhi then [(i + k, ahi, j + k, bhi)] else [])
               @ (if alo < i \<and> blo < j then [(alo, i, blo, j)] else []) @ queue)
              (matching_blocks @ [(i, j, k)])
          else matching_blocks_loop a b queue matching_blocks)"
  by pat_completeness auto

definition collapse_step :: "block \<times> block list \<Rightarrow> block \<Rightarrow> block \<times> block list" where
  "collapse_step st blk =
     (case st of ((i1, j1, k1), non_adjacent) \<Rightarrow>
        (case blk of (i2, j2, k2) \<Rightarrow>
           if i1 + k1 = i2 \<and> j1 + k1 = j2 then ((i1, j1, k1 + k2), non_adjacent)
           else ((i2, j2, k2),
                 if k1 \<noteq> 0 then non_adjacent @ [(i1, j1, k1)] else non_adjacent)))"

definition get_matching_blocks :: "'a list \<Rightarrow> 'a list \<Rightarrow> block list" where
  "get_matching_blocks a b =
     (let la = length a; lb = length b;
          matching_blocks = sort (matching_blocks_loop a b [(0, la, 0, lb)] [])
      in case foldl collapse_step ((0, 0, 0), []) matching_blocks of
           ((i1, j1, k1), non_adjacent) \<Rightarrow>
             (if k1 \<noteq> 0 then non_adjacent @ [(i1, j1, k1)] else non_adjacent) @ [(la, lb, 0)])"

text \<open>\<^verbatim>\<open>get_opcodes\<close>.\<close>

datatype tag = Replace | Delete | Insert | Equal

type_synonym opcode = "tag \<times> nat \<times> nat \<times> nat \<times> nat"

definition opcode_step :: "(nat \<times> nat) \<times> opcode list \<Rightarrow> block \<Rightarrow> (nat \<times> nat) \<times> opcode list" where
  "opcode_step st blk =
     (case st of ((i, j), answer) \<Rightarrow>
        (case blk of (ai, bj, sz) \<Rightarrow>
           let answer = (if i < ai \<and> j < bj then answer @ [(Replace, i, ai, j, bj)]
                         else if i < ai then answer @ [(Delete, i, ai, j, bj)]
                         else if j < bj then answer @ [(Insert, i, ai, j, bj)]
                         else answer)
           in ((ai + sz, bj + sz),
               if sz \<noteq> 0 then answer @ [(Equal, ai, ai + sz, bj, bj + sz)] else answer)))"

definition get_opcodes :: "'a list \<Rightarrow> 'a list \<Rightarrow> opcode list" where
  "get_opcodes a b = snd (foldl opcode_step ((0, 0), []) (get_matching_blocks a b))"

subsection \<open>\<^verbatim>\<open>Differ.compare\<close> and \<^verbatim>\<open>ndiff\<close>\<close>

text \<open>
  \<^verbatim>\<open>Differ.compare\<close> writes the lines of each opcode: a deleted, inserted or equal block
  with the prefix \<^verbatim>\<open>- \<close>, \<^verbatim>\<open>+ \<close> or two blanks. A replaced block goes to
  \<^verbatim>\<open>_fancy_replace\<close>, which pairs lines by a floating-point similarity ratio and adds
  \<^verbatim>\<open>?\<close> guide lines; it is a parameter here. \<open>plain_replace\<close> is
  \<^verbatim>\<open>Differ._plain_replace\<close>, what \<^verbatim>\<open>_fancy_replace\<close> writes when no two lines are
  similar.
\<close>

definition dump :: "char \<Rightarrow> string list \<Rightarrow> nat \<Rightarrow> nat \<Rightarrow> string list" where
  "dump tg x lo hi = map (\<lambda>line. tg # CHR '' '' # line) (take (hi - lo) (drop lo x))"

type_synonym replace_formatter =
  "string list \<Rightarrow> nat \<Rightarrow> nat \<Rightarrow> string list \<Rightarrow> nat \<Rightarrow> nat \<Rightarrow> string list"

definition plain_replace :: replace_formatter where
  "plain_replace a alo ahi b blo bhi =
     (if bhi - blo < ahi - alo then dump (CHR ''+'') b blo bhi @ dump (CHR ''-'') a alo ahi
      else dump (CHR ''-'') a alo ahi @ dump (CHR ''+'') b blo bhi)"

definition compare :: "replace_formatter \<Rightarrow> string list \<Rightarrow> string list \<Rightarrow> string list" where
  "compare fancy_replace a b =
     concat (map (\<lambda>(tg, alo, ahi, blo, bhi).
                    case tg of
                      Replace \<Rightarrow> fancy_replace a alo ahi b blo bhi
                    | Delete \<Rightarrow> dump (CHR ''-'') a alo ahi
                    | Insert \<Rightarrow> dump (CHR ''+'') b blo bhi
                    | Equal \<Rightarrow> dump (CHR '' '') a alo ahi)
               (get_opcodes a b))"

definition ndiff :: "replace_formatter \<Rightarrow> string list \<Rightarrow> string list \<Rightarrow> string list" where
  "ndiff fancy_replace a b = compare fancy_replace a b"

subsection \<open>\<^verbatim>\<open>EnvSpec.diff_from\<close>\<close>

text \<open>The string method \<^verbatim>\<open>join\<close>: the lines with the separator between them.\<close>

fun join :: "string \<Rightarrow> string list \<Rightarrow> string" where
  "join sep [] = []"
| "join sep [x] = x"
| "join sep (x # y # ys) = x @ sep @ join sep (y # ys)"

text \<open>
  \<^verbatim>\<open>diff_from\<close>; the formatter of replaced blocks is passed on to \<open>ndiff\<close>. The six
  properties are read in the order of the source, the old one of each pair first.
\<close>

definition diff_from :: "replace_formatter \<Rightarrow> EnvSpec \<Rightarrow> EnvSpec \<Rightarrow> exn + string" where
  "diff_from fancy_replace self old =
     exn_bind (channels old) (\<lambda>old_channels.
     exn_bind (channels self) (\<lambda>self_channels.
       let channels_diff = ndiff fancy_replace old_channels self_channels in
     exn_bind (conda_packages old) (\<lambda>old_conda.
     exn_bind (conda_packages self) (\<lambda>self_conda.
       let conda_diff = ndiff fancy_replace old_conda self_conda in
     exn_bind (pip_packages old) (\<lambda>old_pips.
     exn_bind (pip_packages self) (\<lambda>self_pips.
       let pip_diff = ndiff fancy_replace old_pips self_pips;
           pip_diff = (if pip_diff \<noteq> [] then ''  pip:'' # map (\<lambda>x. ''    '' @ x) pip_diff
                       else pip_diff);
           channels_diff = (if channels_diff \<noteq> []
                            then ''  channels:'' # map (\<lambda>x. ''    '' @ x) channels_diff
                            else channels_diff)
       in Inr (join [CHR 0x0A] (channels_diff @ conda_diff @ pip_diff))))))))"

subsection \<open>Quantities for the comparison of a sequence with itself\<close>

text \<open>
  \<open>kval j2len j\<close> is the value that the inner loop computes at \<open>j\<close>; \<open>diag a i\<close> is
  the number of consecutive elements ending at index \<open>i\<close> that are not popular;
  \<open>self_inv\<close> is the loop invariant of \<^verbatim>\<open>find_longest_match\<close> when both sequences are
  \<open>a\<close>: the best match lies on the diagonal and is at least as long as every run
  counted by \<open>diag\<close> so far.
\<close>

definition kval :: "(nat \<Rightarrow> nat) \<Rightarrow> nat \<Rightarrow> nat" where
  "kval j2len j = (if j = 0 then 0 else j2len (j - 1)) + 1"

fun diag :: "'a list \<Rightarrow> nat \<Rightarrow> nat" where
  "diag a 0 = (if popular a (a ! 0) then 0 else 1)"
| "diag a (Suc i) = (if popular a (a ! Suc i) then 0 else diag a i + 1)"

definition dprev :: "'a list \<Rightarrow> nat \<Rightarrow> nat" where
  "dprev a i = (if i = 0 then 0 else diag a (i - 1))"

definition self_inv :: "'a list \<Rightarrow> nat \<Rightarrow> (nat \<Rightarrow> nat) \<times> block \<Rightarrow> bool" where
  "self_inv a i st =
     (case st of (j2len, bi, bj, bs) \<Rightarrow>
        (\<forall>j. j2len j \<le> dprev a i) \<and> (\<forall>j. j2len j \<le> diag a j)
        \<and> (0 < i \<longrightarrow> j2len (i - 1) = diag a (i - 1))
        \<and> bi = bj \<and> bi + bs \<le> i \<and> (\<forall>i' < i. diag a i' \<le> bs))"

section \<open>Conditions used in the statements\<close>

text \<open>The condition that the \<^verbatim>\<open>assert\<close> of \<^verbatim>\<open>__init__\<close> tests, as a predicate of the object.\<close>

definition inherit_from_matches :: "EnvSpec \<Rightarrow> bool" where
  "inherit_from_matches self =
     (case inherit_from self of
        None \<Rightarrow> True
      | Some p \<Rightarrow> inherit_from_name self \<noteq> PNone \<and> py_eq (inherit_from_name self) (name p))"

text \<open>A field of the document that is absent, or present with a false value.\<close>

definition yields_no_name :: "pyval option \<Rightarrow> bool" where
  "yields_no_name field = (case field of None \<Rightarrow> True | Some v \<Rightarrow> \<not> truthy v)"

section \<open>Example objects\<close>

definition merge_parent :: EnvSpec where
  "merge_parent = EnvSpec (PStr ''parent'') [''a'', ''b'', ''c''] [] [] PNone None PNone None"

definition merge_child :: EnvSpec where
  "merge_child =
     EnvSpec (PStr ''child'') [''c'', ''a''] [] [] PNone None (PStr ''parent'') (Some merge_parent)"



definition spec_py_pypy :: EnvSpec where
  "spec_py_pypy = EnvSpec (PStr ''env'') [''py'', ''pypy''] [] [] PNone None PNone None"

definition spec_pypy_py :: EnvSpec where
  "spec_pypy_py = EnvSpec (PStr ''env'') [''pypy'', ''py''] [] [] PNone None PNone None"

definition json_base :: EnvSpec where
  "json_base = EnvSpec (PStr ''base'') [''a''] [''c1''] [] PNone None PNone None"

definition json_derived :: EnvSpec where
  "json_derived =
     EnvSpec (PStr ''derived'') [''b''] [] [''flask''] PNone None (PStr ''base'') (Some json_base)"

definition json_unresolved :: EnvSpec where
  "json_unresolved =
     EnvSpec (PStr ''derived'') [''b''] [] [''flask''] PNone None (PStr ''base'') None"

text \<open>
  For the examples: a parser given by a table from file contents to documents (any other
  contents are malformed), and a file system with one file.
\<close>

definition parser_table :: "(string \<times> pyval) list \<Rightarrow> string \<Rightarrow> exn + pyval" where
  "parser_table table contents =
     (case map_of table contents of None \<Rightarrow> Inl YAMLError | Some doc \<Rightarrow> Inr doc)"

definition single_file :: "string \<Rightarrow> string \<Rightarrow> filesystem" where
  "single_file path bytes = (\<lambda>p. if p = path then Some bytes else None)"

definition bad_bytes_fs :: filesystem where
  "bad_bytes_fs = single_file ''/proj/environment.yml'' [CHR 0xFF]"

definition cut_short_fs :: filesystem where
  "cut_short_fs =
     single_file ''/proj/environment.yml'' (''name: x'' @ [CHR 0x0A, CHR 0xE2, CHR 0x82])"

definition prefix_doc :: "string \<Rightarrow> pyval" where
  "prefix_doc p = PDict [(PStr ''prefix'', PStr p)]"

definition empty_name_doc :: pyval where
  "empty_name_doc = PDict [(PStr ''name'', PStr []), (PStr ''prefix'', PStr ''/opt/envs/myenv'')]"

definition known_default :: EnvSpec where
  "known_default = EnvSpec (PStr ''default'') [''numpy''] [] [] PNone None PNone None"



definition diff_spec :: EnvSpec where
  "diff_spec = EnvSpec (PStr ''default'') [''numpy''] [''conda-forge''] [''flask''] PNone None PNone None"

section \<open>Verified properties\<close>

subsection \<open>Inheritance merge\<close>

lemma combine_with_tuple:
  "combine_keeping_last_duplicate items1 (PyTuple items2) key_func = Inl TypeError"
  by (simp add: combine_keeping_last_duplicate_def exn_bind_def)

lemma combine_with_list:
  "combine_keeping_last_duplicate items1 (PyList items2) default_key
     = Inr (filter (\<lambda>x. x \<notin> set items2) items1 @ items2)"
  by (simp add: combine_keeping_last_duplicate_def exn_bind_def default_key_def)

lemma get_inherited_unfold:
  "get_inherited a self =
     (case inherit_from self of
        None \<Rightarrow> Inr (private_attr a self)
      | Some p \<Rightarrow>
          exn_bind (get_inherited a p) (\<lambda>inherited.
            combine_keeping_last_duplicate inherited (PyTuple (private_attr a self)) default_key))"
  by (cases self; cases "inherit_from self") auto

lemma get_inherited_None:
  "inherit_from self = None \<Longrightarrow> get_inherited a self = Inr (private_attr a self)"
  by (simp add: get_inherited_unfold)

lemma get_inherited_raises:
  "get_inherited a self = Inl e \<Longrightarrow> e = TypeError"
proof (induction a self rule: get_inherited.induct)
  case (1 a nm conda chans pip descr cache parent_name)
  then show ?case by simp
next
  case (2 a nm conda chans pip descr cache parent_name p)
  then show ?case
    by (cases "get_inherited a p") (simp_all add: exn_bind_def combine_with_tuple)
qed

lemma get_inherited_Some:
  assumes "inherit_from self = Some p"
  shows "get_inherited a self = Inl TypeError"
proof (cases "get_inherited a p")
  case (Inl e)
  with get_inherited_raises [OF Inl] assms show ?thesis
    by (simp add: get_inherited_unfold [of a self] exn_bind_def)
next
  case (Inr inherited)
  with assms show ?thesis
    by (simp add: get_inherited_unfold [of a self] exn_bind_def combine_with_tuple)
qed

lemma effective_no_parent:
  assumes "inherit_from self = None"
  shows "conda_packages self = Inr (own_conda_packages self)"
    and "pip_packages self = Inr (own_pip_packages self)"
    and "channels self = Inr (own_channels self)"
  using assms by (simp_all add: conda_packages_def pip_packages_def channels_def get_inherited_None)

lemma effective_with_parent:
  assumes "inherit_from self = Some p"
  shows "conda_packages self = Inl TypeError"
    and "pip_packages self = Inl TypeError"
    and "channels self = Inl TypeError"
  using assms by (simp_all add: conda_packages_def pip_packages_def channels_def get_inherited_Some)

text \<open>
  Claim C3 fails in the code, at every pair linked by \<open>inherit_from\<close>: the child's own
  sequence is a tuple, and adding it to the list of the surviving parent elements raises
  \<open>TypeError\<close>, so none of the three effective sequences of the child is ever returned.
  The merge of the claim is what \<open>_combine_keeping_last_duplicate\<close> returns when its
  second argument is a list, which \<open>_get_inherited\<close> never passes.
\<close>

theorem merge_raises_type_error:
  assumes "inherit_from child = Some parent"
  shows "get_inherited a child = Inl TypeError
       \<and> conda_packages child = Inl TypeError
       \<and> channels child = Inl TypeError
       \<and> pip_packages child = Inl TypeError
       \<and> combine_keeping_last_duplicate inherited (PyTuple (private_attr a child)) default_key
           = Inl TypeError
       \<and> combine_keeping_last_duplicate inherited (PyList (private_attr a child)) default_key
           = Inr (filter (\<lambda>x. x \<notin> set (private_attr a child)) inherited @ private_attr a child)"
  using get_inherited_Some [OF assms] effective_with_parent [OF assms]
  by (simp add: combine_with_tuple combine_with_list)

theorem merge_raises_type_error_witness:
  "EnvSpec_init (PStr ''child'') [''c'', ''a''] [] [] PNone (PStr ''parent'') (Some merge_parent)
     = Inr merge_child
   \<and> inherit_from merge_child = Some merge_parent
   \<and> conda_packages merge_parent = Inr [''a'', ''b'', ''c'']
   \<and> own_conda_packages merge_child = [''c'', ''a'']
   \<and> conda_packages merge_child = Inl TypeError
   \<and> channels merge_child = Inl TypeError
   \<and> pip_packages merge_child = Inl TypeError
   \<and> combine_keeping_last_duplicate [''a'', ''b'', ''c''] (PyList [''c'', ''a'']) default_key
       = Inr [''b'', ''c'', ''a'']"
proof -
  have link: "inherit_from merge_child = Some merge_parent"
    by (simp add: merge_child_def)
  have init: "EnvSpec_init (PStr ''child'') [''c'', ''a''] [] [] PNone (PStr ''parent'')
                (Some merge_parent) = Inr merge_child"
    by (simp add: EnvSpec_init_def merge_child_def merge_parent_def py_eq_def)
  have parent: "conda_packages merge_parent = Inr [''a'', ''b'', ''c'']"
    by (simp add: merge_parent_def conda_packages_def)
  have own: "own_conda_packages merge_child = [''c'', ''a'']"
    by (simp add: merge_child_def)
  from merge_raises_type_error
         [OF link, where a = Conda_packages and inherited = "[''a'', ''b'', ''c'']"]
  have "conda_packages merge_child = Inl TypeError
        \<and> channels merge_child = Inl TypeError
        \<and> pip_packages merge_child = Inl TypeError
        \<and> combine_keeping_last_duplicate [''a'', ''b'', ''c''] (PyList [''c'', ''a'']) default_key
            = Inr [''b'', ''c'', ''a'']"
    by (simp add: own)
  with link init parent own show ?thesis by simp
qed

subsection \<open>SHA-1 test vectors\<close>

text \<open>
  A rotation of a 32-bit word is two shifts; with this the digest can be computed by
  rewriting. The model gives the digest of FIPS 180 for the message \<^verbatim>\<open>abc\<close>, and the
  digests that \<^verbatim>\<open>hashlib\<close> gives for the other messages used below.
\<close>

lemma mask32: "(w :: 32 word) AND 0xFFFFFFFF = w"
proof -
  have "(0xFFFFFFFF :: 32 word) = mask 32"
    by (simp add: mask_eq_exp_minus_1)
  then have "w AND 0xFFFFFFFF = take_bit 32 w"
    by (simp add: take_bit_eq_mask)
  then show ?thesis using take_bit_length_eq [of w] by simp
qed

lemma rotl32:
  assumes "n < 32"
  shows "word_rotl n (w :: 32 word) = push_bit n w OR drop_bit (32 - n) w"
proof (rule bit_word_eqI)
  fix k assume "k < LENGTH(32)"
  then have k: "k < 32" by simp
  have idx: "(k + (32 - n mod 32)) mod 32 = (if n \<le> k then k - n else k + 32 - n)"
    "(k + 32 - n) mod 32 = (if n \<le> k then k - n else k + 32 - n)"
    "(k + (32 - n)) mod 32 = (if n \<le> k then k - n else k + 32 - n)"
    using assms k by (auto simp: mod_if)
  have high: "\<not> bit w (32 - n + k)" if "n \<le> k"
  proof
    assume "bit w (32 - n + k)"
    then have "32 - n + k < LENGTH(32)" by (rule bit_imp_le_length)
    with that assms show False by simp
  qed
  show "bit (word_rotl n w) k = bit (push_bit n w OR drop_bit (32 - n) w) k"
  proof (cases "n \<le> k")
    case True
    with k high assms show ?thesis
      by (simp add: bit_word_rotl_iff idx bit_or_iff bit_push_bit_iff bit_drop_bit_eq)
  next
    case False
    with k assms have "k + 32 - n = 32 - n + k" by simp
    with False k assms show ?thesis
      by (simp add: bit_word_rotl_iff idx bit_or_iff bit_push_bit_iff bit_drop_bit_eq)
  qed
qed


lemma rot1: "word_rotl 1 (x :: 32 word) = (push_bit 1 x OR drop_bit 31 x) AND 0xFFFFFFFF"
  by (simp add: rotl32 mask32)

lemma rot1_Suc:
  "word_rotl (Suc 0) (x :: 32 word) = (push_bit 1 x OR drop_bit 31 x) AND 0xFFFFFFFF"
  using rot1 by simp

lemma rot5: "word_rotl 5 (x :: 32 word) = (push_bit 5 x OR drop_bit 27 x) AND 0xFFFFFFFF"
  by (simp add: rotl32 mask32)

lemma rot30: "word_rotl 30 (x :: 32 word) = (push_bit 30 x OR drop_bit 2 x) AND 0xFFFFFFFF"
  by (simp add: rotl32 mask32)

lemma replicate_numeral_Cons: "replicate (numeral n) x = x # replicate (pred_numeral n) x"
  by (simp add: numeral_eq_Suc)

lemma upt_step: "i < j \<Longrightarrow> [i..<j] = i # [i + 1..<j]"
  by (simp add: upt_rec)





lemma padded_pypypy:
  "encode_utf8 ''pypypy'' @ sha1_padding (length (encode_utf8 ''pypypy'')) =
      [0x70, 0x79, 0x70, 0x79, 0x70, 0x79, 0x80, 0x00, 0x00, 0x00, 0x00, 0x00, 0x00, 0x00,
       0x00, 0x00, 0x00, 0x00, 0x00, 0x00, 0x00, 0x00, 0x00, 0x00, 0x00, 0x00, 0x00, 0x00,
       0x00, 0x00, 0x00, 0x00, 0x00, 0x00, 0x00, 0x00, 0x00, 0x00, 0x00, 0x00, 0x00, 0x00,
       0x00, 0x00, 0x00, 0x00, 0x00, 0x00, 0x00, 0x00, 0x00, 0x00, 0x00, 0x00, 0x00, 0x00,
       0x00, 0x00, 0x00, 0x00, 0x00, 0x00, 0x00, 0x30]"
  by (simp add: encode_utf8_def sha1_padding_def replicate_numeral_Cons)

lemma schedule_pypypy:
  "sha1_schedule
      [0x70, 0x79, 0x70, 0x79, 0x70, 0x79, 0x80, 0x00, 0x00, 0x00, 0x00, 0x00, 0x00, 0x00,
       0x00, 0x00, 0x00, 0x00, 0x00, 0x00, 0x00, 0x00, 0x00, 0x00, 0x00, 0x00, 0x00, 0x00,
       0x00, 0x00, 0x00, 0x00, 0x00, 0x00, 0x00, 0x00, 0x00, 0x00, 0x00, 0x00, 0x00, 0x00,
       0x00, 0x00, 0x00, 0x00, 0x00, 0x00, 0x00, 0x00, 0x00, 0x00, 0x00, 0x00, 0x00, 0x00,
       0x00, 0x00, 0x00, 0x00, 0x00, 0x00, 0x00, 0x30] =
      [0x70797079, 0x70798000, 0x00000000, 0x00000000, 0x00000000, 0x00000000, 0x00000000,
       0x00000000, 0x00000000, 0x00000000, 0x00000000, 0x00000000, 0x00000000, 0x00000000,
       0x00000000, 0x00000030, 0xE0F2E0F2, 0xE0F30000, 0x00000060, 0xC1E5C1E5, 0xC1E60001,
       0x000000C0, 0x83CB83CB, 0x83CC0063, 0xC1E5C065, 0xC6710796, 0x07980007, 0x00000300,
       0x0F2E0F2E, 0x0F3001EE, 0xC672C072, 0xD8221EFA, 0x5C4E4232, 0x422A0C02, 0x3CB83D38,
       0x3B57002F, 0x1E5301CC, 0x608878EB, 0x7E1707E7, 0x07983187, 0xF577F577, 0xF4981EE7,
       0x672C072C, 0x8221EF6D, 0x472FA0EE, 0xA16CC1A7, 0xCC14D594, 0xB57F0723, 0x69DA97B4,
       0x83E38EBC, 0xE17079F7, 0x6048003B, 0x491050F3, 0x4E19E278, 0x4E784E7E, 0x1EDEF160,
       0x6B310F2F, 0x76446291, 0xBF5A5EAB, 0x506843BC, 0x68DE8E31, 0xCAA0F4AF, 0x77BC9FC5,
       0x8139ED9C, 0x52762B86, 0xC4A6E7A7, 0x2C073467, 0x589F14F2, 0x5620EE37, 0x6CC1A7A1,
       0x14D594CC, 0x7F0720B5, 0xD5B9BB47, 0xECBEA48D, 0x09098891, 0x2FDC314C, 0x4BF8B69D,
       0x5CA26C06, 0x3D862386, 0xE2C13826]"
  by (simp add: sha1_schedule_def upt_step be32_def rot1_Suc del: upt_rec_numeral)

lemma compress_pypypy:
  "sha1_compress (0x67452301, 0xEFCDAB89, 0x98BADCFE, 0x10325476, 0xC3D2E1F0)
      [0x70, 0x79, 0x70, 0x79, 0x70, 0x79, 0x80, 0x00, 0x00, 0x00, 0x00, 0x00, 0x00, 0x00,
       0x00, 0x00, 0x00, 0x00, 0x00, 0x00, 0x00, 0x00, 0x00, 0x00, 0x00, 0x00, 0x00, 0x00,
       0x00, 0x00, 0x00, 0x00, 0x00, 0x00, 0x00, 0x00, 0x00, 0x00, 0x00, 0x00, 0x00, 0x00,
       0x00, 0x00, 0x00, 0x00, 0x00, 0x00, 0x00, 0x00, 0x00, 0x00, 0x00, 0x00, 0x00, 0x00,
       0x00, 0x00, 0x00, 0x00, 0x00, 0x00, 0x00, 0x30] =
      (0xFB846CDA, 0x3438005A, 0x46CE3FED, 0x9DF2C8F5, 0x21FD96D6)"
  by (simp add: sha1_compress_def schedule_pypypy sha1_round_def upt_step rot5 rot30 Let_def
      del: upt_rec_numeral)

lemma hexdigest_pypypy:
  "hexdigest (encode_utf8 ''pypypy'') = ''fb846cda3438005a46ce3fed9df2c8f521fd96d6''"
  by (simp add: hexdigest_def sha1_def Let_def padded_pypypy compress_pypypy hex32_def)









subsection \<open>The hash\<close>

lemma foldl_update:
  "foldl (\<lambda>m p. update m (encode_utf8 p)) m xs = m @ concat (map encode_utf8 xs)"
  by (induction xs arbitrary: m) (simp_all add: update_def)


lemma hash_uncached:
  assumes "hash_cache self = None"
    and "conda_packages self = Inr conda" "pip_packages self = Inr pips"
    and "channels self = Inr chans"
  shows "channels_and_packages_hash self =
           (Inr (hexdigest (concat (map encode_utf8 conda) @ concat (map encode_utf8 pips)
                            @ concat (map encode_utf8 chans))),
            set_hash_cache
              (Some (hexdigest (concat (map encode_utf8 conda) @ concat (map encode_utf8 pips)
                                @ concat (map encode_utf8 chans)))) self)"
  using assms
  by (simp add: channels_and_packages_hash_def exn_bind_def Let_def foldl_update hashlib_sha1_def)

lemma hash_raises:
  assumes "hash_cache self = None"
    and "conda_packages self = Inl e"
  shows "channels_and_packages_hash self = (Inl e, self)"
  using assms by (simp add: channels_and_packages_hash_def exn_bind_def)

lemma hash_cached:
  "hash_cache self = Some h \<Longrightarrow> channels_and_packages_hash self = (Inr h, self)"
  by (simp add: channels_and_packages_hash_def)

lemma hash_cache_set_hash_cache [simp]: "hash_cache (set_hash_cache v self) = v"
  by (cases self) (simp add: set_hash_cache_def)

lemma set_hash_cache_fields [simp]:
  "name (set_hash_cache v self) = name self"
  "own_conda_packages (set_hash_cache v self) = own_conda_packages self"
  "own_channels (set_hash_cache v self) = own_channels self"
  "own_pip_packages (set_hash_cache v self) = own_pip_packages self"
  "own_description (set_hash_cache v self) = own_description self"
  "inherit_from_name (set_hash_cache v self) = inherit_from_name self"
  "inherit_from (set_hash_cache v self) = inherit_from self"
  by (cases self; simp add: set_hash_cache_def)+

lemma set_hash_cache_twice [simp]:
  "set_hash_cache c (set_hash_cache v self) = set_hash_cache c self"
  by (cases self) (simp add: set_hash_cache_def)

lemma set_hash_cache_same [simp]:
  "set_hash_cache (hash_cache self) self = self"
  by (cases self) (simp add: set_hash_cache_def)

lemma get_inherited_set_hash_cache [simp]:
  "get_inherited a (set_hash_cache v self) = get_inherited a self"
  by (cases self; cases "inherit_from self"; cases a) (simp_all add: set_hash_cache_def)

lemma hash_keeps_fields:
  "\<exists>v. snd (channels_and_packages_hash self) = set_hash_cache v self"
proof (cases "hash_cache self")
  case None
  then have "snd (channels_and_packages_hash self) = self
             \<or> (\<exists>h. snd (channels_and_packages_hash self) = set_hash_cache (Some h) self)"
    by (auto simp: channels_and_packages_hash_def split: sum.splits)
  then show ?thesis using set_hash_cache_same [of self] by metis
next
  case (Some h)
  then have "snd (channels_and_packages_hash self) = self"
    by (simp add: hash_cached)
  then show ?thesis using set_hash_cache_same [of self] by metis
qed





text \<open>
  Claim C5 at the failing input: the conda packages \<^verbatim>\<open>["py", "pypy"]\<close> and their
  reordering \<^verbatim>\<open>["pypy", "py"]\<close> are different effective lists of two constructed specs
  that agree in everything else, and both specs have the same hash, the digest of the
  bytes of \<^verbatim>\<open>pypypy\<close>.
\<close>

theorem hash_reordered_equal:
  "EnvSpec_init (PStr ''env'') [''py'', ''pypy''] [] [] PNone PNone None = Inr spec_py_pypy
   \<and> EnvSpec_init (PStr ''env'') [''pypy'', ''py''] [] [] PNone PNone None = Inr spec_pypy_py
   \<and> conda_packages spec_py_pypy = Inr [''py'', ''pypy'']
   \<and> conda_packages spec_pypy_py = Inr [''pypy'', ''py'']
   \<and> pip_packages spec_py_pypy = Inr [] \<and> pip_packages spec_pypy_py = Inr []
   \<and> channels spec_py_pypy = Inr [] \<and> channels spec_pypy_py = Inr []
   \<and> fst (channels_and_packages_hash spec_py_pypy) = Inr (hexdigest (encode_utf8 ''pypypy''))
   \<and> fst (channels_and_packages_hash spec_pypy_py) = Inr (hexdigest (encode_utf8 ''pypypy''))
   \<and> fst (channels_and_packages_hash spec_py_pypy) = fst (channels_and_packages_hash spec_pypy_py)
   \<and> fst (channels_and_packages_hash spec_py_pypy)
       = Inr ''fb846cda3438005a46ce3fed9df2c8f521fd96d6''"
proof -
  have lists: "conda_packages spec_py_pypy = Inr [''py'', ''pypy'']"
    "pip_packages spec_py_pypy = Inr []" "channels spec_py_pypy = Inr []"
    "conda_packages spec_pypy_py = Inr [''pypy'', ''py'']"
    "pip_packages spec_pypy_py = Inr []" "channels spec_pypy_py = Inr []"
    by (simp_all add: spec_py_pypy_def spec_pypy_py_def conda_packages_def pip_packages_def
        channels_def)
  have fresh: "hash_cache spec_py_pypy = None" "hash_cache spec_pypy_py = None"
    by (simp_all add: spec_py_pypy_def spec_pypy_py_def)
  have init:
    "EnvSpec_init (PStr ''env'') [''py'', ''pypy''] [] [] PNone PNone None = Inr spec_py_pypy"
    "EnvSpec_init (PStr ''env'') [''pypy'', ''py''] [] [] PNone PNone None = Inr spec_pypy_py"
    by (simp_all add: EnvSpec_init_def spec_py_pypy_def spec_pypy_py_def)
  have bytes:
    "concat (map encode_utf8 [''py'', ''pypy'']) @ concat (map encode_utf8 [])
       @ concat (map encode_utf8 []) = encode_utf8 ''pypypy''"
    "concat (map encode_utf8 [''pypy'', ''py'']) @ concat (map encode_utf8 [])
       @ concat (map encode_utf8 []) = encode_utf8 ''pypypy''"
    by (simp_all add: encode_utf8_def)
  have "fst (channels_and_packages_hash spec_py_pypy) = Inr (hexdigest (encode_utf8 ''pypypy''))"
    "fst (channels_and_packages_hash spec_pypy_py) = Inr (hexdigest (encode_utf8 ''pypypy''))"
    using hash_uncached [OF fresh(1) lists(1,2,3)] hash_uncached [OF fresh(2) lists(4,5,6)]
    by (simp_all only: bytes fst_conv)
  with init lists show ?thesis by (simp add: hexdigest_pypypy)
qed

subsection \<open>The constructor's assertion\<close>

text \<open>
  Claim C6. Constructing an \<open>EnvSpec\<close> with a parent object whose name is not equal to
  \<open>inherit_from_name\<close>, or with a parent object and no \<open>inherit_from_name\<close>, raises
  \<open>AssertionError\<close>. Every object that the constructor returns has no parent object, or
  an \<open>inherit_from_name\<close> equal to the parent's name; the only assignment after
  construction, the hash cache, leaves the name and the link as they are, so the
  condition holds afterwards too.
\<close>

theorem init_enforces_inherit_from_name:
  "(parent = Some p \<and> (parent_name = PNone \<or> \<not> py_eq parent_name (name p)) \<longrightarrow>
      EnvSpec_init nm conda chans pip descr parent_name parent = Inl AssertionError)
   \<and> (EnvSpec_init nm conda chans pip descr parent_name parent = Inr self \<longrightarrow>
        inherit_from_matches self
      \<and> inherit_from_matches (snd (channels_and_packages_hash self))
      \<and> inherit_from (snd (channels_and_packages_hash self)) = inherit_from self
      \<and> inherit_from_name (snd (channels_and_packages_hash self)) = inherit_from_name self
      \<and> name (snd (channels_and_packages_hash self)) = name self)"
proof -
  obtain v where v: "snd (channels_and_packages_hash self) = set_hash_cache v self"
    using hash_keeps_fields by blast
  have "inherit_from_matches self"
    if "EnvSpec_init nm conda chans pip descr parent_name parent = Inr self"
    using that
    by (auto simp: EnvSpec_init_def inherit_from_matches_def Let_def
        split: option.splits if_splits)
  moreover have "inherit_from_matches (set_hash_cache v self) = inherit_from_matches self"
    by (cases "inherit_from self") (simp_all add: inherit_from_matches_def)
  moreover have
    "parent = Some p \<and> (parent_name = PNone \<or> \<not> py_eq parent_name (name p)) \<longrightarrow>
       EnvSpec_init nm conda chans pip descr parent_name parent = Inl AssertionError"
    by (auto simp: EnvSpec_init_def Let_def)
  ultimately show ?thesis by (simp add: v)
qed

theorem init_enforces_inherit_from_name_witness:
  "EnvSpec_init (PStr ''child'') [''c'', ''a''] [] [] PNone (PStr ''other'') (Some merge_parent)
     = Inl AssertionError
   \<and> EnvSpec_init (PStr ''child'') [''c'', ''a''] [] [] PNone PNone (Some merge_parent)
     = Inl AssertionError
   \<and> EnvSpec_init (PStr ''child'') [''c'', ''a''] [] [] PNone (PStr ''parent'') (Some merge_parent)
     = Inr merge_child
   \<and> inherit_from_matches merge_child
   \<and> inherit_from_matches (snd (channels_and_packages_hash merge_child))"
proof -
  have nm: "name merge_parent = PStr ''parent''"
    by (simp add: merge_parent_def)
  have ok: "EnvSpec_init (PStr ''child'') [''c'', ''a''] [] [] PNone (PStr ''parent'')
              (Some merge_parent) = Inr merge_child"
    by (simp add: EnvSpec_init_def merge_child_def nm py_eq_def)
  note inst = init_enforces_inherit_from_name
    [where parent = "Some merge_parent" and p = merge_parent and nm = "PStr ''child''"
       and conda = "[''c'', ''a'']" and chans = "[]" and pip = "[]" and descr = PNone]
  from inst [where parent_name = "PStr ''other''", THEN conjunct1]
  have bad1: "EnvSpec_init (PStr ''child'') [''c'', ''a''] [] [] PNone (PStr ''other'')
              (Some merge_parent) = Inl AssertionError"
    by (simp add: nm py_eq_def)
  from inst [where parent_name = PNone, THEN conjunct1]
  have bad2: "EnvSpec_init (PStr ''child'') [''c'', ''a''] [] [] PNone PNone
              (Some merge_parent) = Inl AssertionError"
    by simp
  from inst [where parent_name = "PStr ''parent''" and self = merge_child, THEN conjunct2] ok
  have "inherit_from_matches merge_child
        \<and> inherit_from_matches (snd (channels_and_packages_hash merge_child))"
    by simp
  with ok bad1 bad2 show ?thesis by simp
qed

subsection \<open>Serialisation\<close>

text \<open>
  Claim C1 fails in the code for every spec with a parent object: \<open>to_json\<close> reads
  \<open>self.conda_packages\<close> first, which raises \<open>TypeError\<close>, so no mapping is returned.
  For a spec without a parent object it returns the mapping of the claim: \<open>packages\<close>
  is the own conda packages list, followed by one \<open>pip\<close> entry holding the own pip
  packages when these are not empty, \<open>channels\<close> is the own channels list, and
  \<open>inherit_from\<close> is present, bound to \<open>inherit_from_name\<close>, exactly when that name
  is present.
\<close>

theorem to_json_raises_with_parent:
  "(inherit_from self = Some p \<longrightarrow> to_json self = Inl TypeError)
   \<and> (inherit_from self = None \<longrightarrow>
        to_json self =
          Inr (PDict
            ([(PStr ''packages'',
               PList (map PStr (own_conda_packages self)
                      @ (if own_pip_packages self = [] then []
                         else [PDict [(PStr ''pip'', PList (map PStr (own_pip_packages self)))]]))),
              (PStr ''channels'', PList (map PStr (own_channels self)))]
             @ (if inherit_from_name self \<noteq> PNone
                then [(PStr ''inherit_from'', inherit_from_name self)] else []))))"
proof (intro conjI impI)
  assume "inherit_from self = Some p"
  from effective_with_parent(1) [OF this] show "to_json self = Inl TypeError"
    by (simp add: to_json_def exn_bind_def)
next
  assume "inherit_from self = None"
  from effective_no_parent [OF this]
  show "to_json self =
          Inr (PDict
            ([(PStr ''packages'',
               PList (map PStr (own_conda_packages self)
                      @ (if own_pip_packages self = [] then []
                         else [PDict [(PStr ''pip'', PList (map PStr (own_pip_packages self)))]]))),
              (PStr ''channels'', PList (map PStr (own_channels self)))]
             @ (if inherit_from_name self \<noteq> PNone
                then [(PStr ''inherit_from'', inherit_from_name self)] else [])))"
    by (simp add: to_json_def exn_bind_def Let_def)
qed

theorem to_json_raises_with_parent_witness:
  "EnvSpec_init (PStr ''derived'') [''b''] [] [''flask''] PNone (PStr ''base'') (Some json_base)
     = Inr json_derived
   \<and> to_json json_derived = Inl TypeError
   \<and> EnvSpec_init (PStr ''derived'') [''b''] [] [''flask''] PNone (PStr ''base'') None
     = Inr json_unresolved
   \<and> to_json json_unresolved =
       Inr (PDict [(PStr ''packages'',
                    PList [PStr ''b'', PDict [(PStr ''pip'', PList [PStr ''flask''])]]),
                   (PStr ''channels'', PList []),
                   (PStr ''inherit_from'', PStr ''base'')])
   \<and> to_json json_base =
       Inr (PDict [(PStr ''packages'', PList [PStr ''a'']),
                   (PStr ''channels'', PList [PStr ''c1''])])"
proof -
  have init: "EnvSpec_init (PStr ''derived'') [''b''] [] [''flask''] PNone (PStr ''base'')
                (Some json_base) = Inr json_derived"
    "EnvSpec_init (PStr ''derived'') [''b''] [] [''flask''] PNone (PStr ''base'') None
       = Inr json_unresolved"
    by (simp_all add: EnvSpec_init_def json_derived_def json_unresolved_def json_base_def
        py_eq_def)
  have link: "inherit_from json_derived = Some json_base"
    "inherit_from json_unresolved = None" "inherit_from json_base = None"
    by (simp_all add: json_derived_def json_unresolved_def json_base_def)
  from to_json_raises_with_parent [of json_derived json_base, THEN conjunct1]
  have a: "to_json json_derived = Inl TypeError"
    using link(1) by simp
  from to_json_raises_with_parent [of json_unresolved p, THEN conjunct2]
  have b: "to_json json_unresolved =
       Inr (PDict [(PStr ''packages'',
                    PList [PStr ''b'', PDict [(PStr ''pip'', PList [PStr ''flask''])]]),
                   (PStr ''channels'', PList []),
                   (PStr ''inherit_from'', PStr ''base'')])"
    using link(2) by (simp add: json_unresolved_def)
  from to_json_raises_with_parent [of json_base p, THEN conjunct2]
  have c: "to_json json_base =
       Inr (PDict [(PStr ''packages'', PList [PStr ''a'']),
                   (PStr ''channels'', PList [PStr ''c1''])])"
    using link(3) by (simp add: json_base_def)
  from init a b c show ?thesis by simp
qed

subsection \<open>Read and parse failures\<close>

lemma utf_8_decode_ascii:
  "\<forall>c \<in> set bytes. ord c < 0x80 \<Longrightarrow> utf_8_decode bytes = Some bytes"
  by (induction bytes) simp_all

lemma codecs_open_read_ascii:
  "fs filename = Some bytes \<Longrightarrow> \<forall>c \<in> set bytes. ord c < 0x80 \<Longrightarrow>
     codecs_open_read fs filename = Inr bytes"
  by (simp add: codecs_open_read_def utf_8_decode_ascii)

lemma codecs_open_read_cut_short:
  "codecs_open_read cut_short_fs ''/proj/environment.yml'' = Inr (''name: x'' @ [CHR 0x0A])"
  by (simp add: codecs_open_read_def cut_short_fs_def single_file_def ord_def continuation_def
      second_of_three_def)


text \<open>
  Claim C7 fails in the code: a file with a byte that cannot occur in UTF-8 makes the
  read raise \<open>UnicodeDecodeError\<close>, which the \<open>except\<close> clause does not name, so
  \<open>_load_environment_yml\<close> raises it instead of returning \<open>None\<close>, whatever the parser
  is. A missing file, in the same file system, gives \<open>None\<close>.
\<close>

theorem load_decode_error_escapes:
  "bad_bytes_fs ''/proj/environment.yml'' = Some [CHR 0xFF]
   \<and> codecs_open_read bad_bytes_fs ''/proj/environment.yml'' = Inl UnicodeDecodeError
   \<and> load_environment_yml bad_bytes_fs load_string ''/proj/environment.yml''
       = Inl UnicodeDecodeError
   \<and> load_environment_yml bad_bytes_fs load_string ''/proj/missing.yml'' = Inr None"
  by (simp add: bad_bytes_fs_def single_file_def codecs_open_read_def load_environment_yml_def
      exn_bind_def ord_def)

subsection \<open>The name of a loaded spec\<close>

lemma init_no_parent [simp]:
  "EnvSpec_init nm conda chans pips descr pn None = Inr (EnvSpec nm conda chans pips descr None pn None)"
  by (simp add: EnvSpec_init_def)

lemma environment_yml_spec_name:
  "environment_yml_name (PDict kvs) filename = Inr nm \<Longrightarrow>
     \<exists>spec. environment_yml_spec (PDict kvs) filename = Inr spec \<and> name spec = nm"
  by (simp add: environment_yml_spec_def exn_bind_def Let_def split: prod.splits)

lemma name_from_name_field:
  "map_of kvs (PStr ''name'') = Some n \<Longrightarrow> truthy n \<Longrightarrow>
     environment_yml_name (PDict kvs) filename = Inr n"
  by (simp add: environment_yml_name_def exn_bind_def)

lemma name_from_prefix:
  "yields_no_name (map_of kvs (PStr ''name'')) \<Longrightarrow> map_of kvs (PStr ''prefix'') = Some (PStr p) \<Longrightarrow>
     environment_yml_name (PDict kvs) filename =
       Inr (PStr (if basename p \<noteq> [] then basename p else basename filename))"
  by (cases "p = []")
     (auto simp: environment_yml_name_def exn_bind_def yields_no_name_def basename_def
           split: option.splits)

lemma name_from_filename:
  "yields_no_name (map_of kvs (PStr ''name'')) \<Longrightarrow> yields_no_name (map_of kvs (PStr ''prefix'')) \<Longrightarrow>
     environment_yml_name (PDict kvs) filename = Inr (PStr (basename filename))"
  by (auto simp: environment_yml_name_def exn_bind_def yields_no_name_def split: option.splits)

lemma load_named:
  assumes "codecs_open_read fs filename = Inr contents" "load_string contents = Inr (PDict kvs)"
    and "environment_yml_name (PDict kvs) filename = Inr nm"
  shows "\<exists>spec. load_environment_yml fs load_string filename = Inr (Some spec) \<and> name spec = nm"
  using environment_yml_spec_name [OF assms(3)] assms(1,2)
  by (auto simp: load_environment_yml_def exn_bind_def)

text \<open>
  Claim C8, as stated, fails: with no \<open>name\<close> and the explicit, non-empty prefix
  \<^verbatim>\<open>/opt/envs/myenv/\<close> the loaded name is the base name of the file path, not the base
  name of the prefix (which is empty).
\<close>

theorem load_name_trailing_slash_counterexample:
  "map_of [(PStr ''prefix'', PStr ''/opt/envs/myenv/'')] (PStr ''name'') = None
   \<and> map_of [(PStr ''prefix'', PStr ''/opt/envs/myenv/'')] (PStr ''prefix'')
       = Some (PStr ''/opt/envs/myenv/'')
   \<and> basename ''/opt/envs/myenv/'' = ''''
   \<and> load_environment_yml
        (single_file ''/proj/environment.yml'' ''prefix: /opt/envs/myenv/'')
        (parser_table [(''prefix: /opt/envs/myenv/'', prefix_doc ''/opt/envs/myenv/'')])
        ''/proj/environment.yml''
      = Inr (Some (EnvSpec (PStr ''environment.yml'') [] [] [] PNone None PNone None))"
proof -
  have "codecs_open_read (single_file ''/proj/environment.yml'' ''prefix: /opt/envs/myenv/'')
          ''/proj/environment.yml'' = Inr ''prefix: /opt/envs/myenv/''"
    by (rule codecs_open_read_ascii) (simp_all add: single_file_def ord_def)
  then show ?thesis
    by (simp add: load_environment_yml_def parser_table_def prefix_doc_def exn_bind_def
        environment_yml_spec_def environment_yml_name_def basename_def list_or_empty_def)
qed

text \<open>
  Claim C8, amended. For a file that is read and parsed to a mapping, the loaded
  \<open>EnvSpec\<close> has as its name: the \<open>name\<close> field when it is present and true;
  otherwise the base name of a string \<open>prefix\<close> field when that base name is not
  empty; otherwise, when the \<open>prefix\<close> field is absent or false or its base name is
  empty, the base name of the file path.
\<close>

theorem load_name_fallback:
  assumes "codecs_open_read fs filename = Inr contents"
    and "load_string contents = Inr (PDict kvs)"
  shows "(map_of kvs (PStr ''name'') = Some n \<and> truthy n \<longrightarrow>
            (\<exists>spec. load_environment_yml fs load_string filename = Inr (Some spec)
                    \<and> name spec = n))
       \<and> (yields_no_name (map_of kvs (PStr ''name''))
            \<and> map_of kvs (PStr ''prefix'') = Some (PStr p) \<and> basename p \<noteq> [] \<longrightarrow>
            (\<exists>spec. load_environment_yml fs load_string filename = Inr (Some spec)
                    \<and> name spec = PStr (basename p)))
       \<and> (yields_no_name (map_of kvs (PStr ''name''))
            \<and> (yields_no_name (map_of kvs (PStr ''prefix''))
                \<or> map_of kvs (PStr ''prefix'') = Some (PStr p) \<and> basename p = []) \<longrightarrow>
            (\<exists>spec. load_environment_yml fs load_string filename = Inr (Some spec)
                    \<and> name spec = PStr (basename filename)))"
proof (intro conjI impI)
  assume "map_of kvs (PStr ''name'') = Some n \<and> truthy n"
  then show "\<exists>spec. load_environment_yml fs load_string filename = Inr (Some spec) \<and> name spec = n"
    using load_named [where load_string = load_string, OF assms] name_from_name_field
    by blast
next
  assume "yields_no_name (map_of kvs (PStr ''name''))
            \<and> map_of kvs (PStr ''prefix'') = Some (PStr p) \<and> basename p \<noteq> []"
  then have "environment_yml_name (PDict kvs) filename = Inr (PStr (basename p))"
    using name_from_prefix [of kvs p filename] by simp
  then show "\<exists>spec. load_environment_yml fs load_string filename = Inr (Some spec)
                    \<and> name spec = PStr (basename p)"
    by (rule load_named [where load_string = load_string, OF assms])
next
  assume a: "yields_no_name (map_of kvs (PStr ''name''))
            \<and> (yields_no_name (map_of kvs (PStr ''prefix''))
                \<or> map_of kvs (PStr ''prefix'') = Some (PStr p) \<and> basename p = [])"
  then have "environment_yml_name (PDict kvs) filename = Inr (PStr (basename filename))"
    using name_from_prefix [of kvs p filename] name_from_filename [of kvs filename] by auto
  then show "\<exists>spec. load_environment_yml fs load_string filename = Inr (Some spec)
                    \<and> name spec = PStr (basename filename)"
    by (rule load_named [where load_string = load_string, OF assms])
qed

theorem load_name_fallback_witness:
  "codecs_open_read (single_file ''/proj/environment.yml'' ''prefix: /opt/envs/myenv'')
     ''/proj/environment.yml'' = Inr ''prefix: /opt/envs/myenv''
   \<and> parser_table [(''prefix: /opt/envs/myenv'', prefix_doc ''/opt/envs/myenv'')]
       ''prefix: /opt/envs/myenv'' = Inr (prefix_doc ''/opt/envs/myenv'')
   \<and> (\<exists>spec. load_environment_yml
                (single_file ''/proj/environment.yml'' ''prefix: /opt/envs/myenv'')
                (parser_table [(''prefix: /opt/envs/myenv'', prefix_doc ''/opt/envs/myenv'')])
                ''/proj/environment.yml'' = Inr (Some spec)
              \<and> name spec = PStr ''myenv'')"
proof -
  let ?fs = "single_file ''/proj/environment.yml'' ''prefix: /opt/envs/myenv''"
  let ?parse = "parser_table [(''prefix: /opt/envs/myenv'', prefix_doc ''/opt/envs/myenv'')]"
  have rd: "codecs_open_read ?fs ''/proj/environment.yml'' = Inr ''prefix: /opt/envs/myenv''"
    by (rule codecs_open_read_ascii) (simp_all add: single_file_def ord_def)
  have ps: "?parse ''prefix: /opt/envs/myenv''
            = Inr (PDict [(PStr ''prefix'', PStr ''/opt/envs/myenv'')])"
    by (simp add: parser_table_def prefix_doc_def)
  have bn: "basename ''/opt/envs/myenv'' = ''myenv''"
    by (simp add: basename_def)
  from load_name_fallback [where load_string = ?parse and p = "''/opt/envs/myenv''", OF rd ps,
         THEN conjunct2, THEN conjunct1]
  have "\<exists>spec. load_environment_yml ?fs ?parse ''/proj/environment.yml'' = Inr (Some spec)
              \<and> name spec = PStr ''myenv''"
    by (simp add: bn yields_no_name_def)
  with rd ps show ?thesis by (simp add: prefix_doc_def)
qed

subsection \<open>A false name field\<close>

lemma map_of_without_key:
  "map_of (filter (\<lambda>kv. fst kv \<noteq> k) kvs) k' = (if k' = k then None else map_of kvs k')"
  by (induction kvs) auto

lemma name_without_falsy_name:
  assumes "map_of kvs (PStr ''name'') = Some v" and "\<not> truthy v"
  shows "environment_yml_name (PDict (filter (\<lambda>kv. fst kv \<noteq> PStr ''name'') kvs)) filename
         = environment_yml_name (PDict kvs) filename"
  using assms
  by (auto simp: environment_yml_name_def exn_bind_def map_of_without_key split: option.splits)

lemma spec_without_falsy_name:
  assumes "map_of kvs (PStr ''name'') = Some v" and "\<not> truthy v"
  shows "environment_yml_spec (PDict (filter (\<lambda>kv. fst kv \<noteq> PStr ''name'') kvs)) filename
         = environment_yml_spec (PDict kvs) filename"
  by (simp add: environment_yml_spec_def name_without_falsy_name [OF assms] map_of_without_key)

text \<open>
  Claim C10. A \<open>name\<close> field that is present with a false value (the empty string,
  null) gives what the same document without the \<open>name\<close> field gives: the name is the
  base name of the \<open>prefix\<close> when there is one with a non-empty base name, and the base
  name of the file path when the \<open>prefix\<close> is absent or false.
\<close>

theorem falsy_name_as_absent:
  assumes "codecs_open_read fs filename = Inr contents"
    and "load_string contents = Inr (PDict kvs)"
    and "map_of kvs (PStr ''name'') = Some v" and "\<not> truthy v"
    and "load_string' contents = Inr (PDict (filter (\<lambda>kv. fst kv \<noteq> PStr ''name'') kvs))"
  shows "load_environment_yml fs load_string filename
         = load_environment_yml fs load_string' filename
       \<and> (map_of kvs (PStr ''prefix'') = Some (PStr p) \<and> basename p \<noteq> [] \<longrightarrow>
            (\<exists>spec. load_environment_yml fs load_string filename = Inr (Some spec)
                    \<and> name spec = PStr (basename p)))
       \<and> (yields_no_name (map_of kvs (PStr ''prefix'')) \<longrightarrow>
            (\<exists>spec. load_environment_yml fs load_string filename = Inr (Some spec)
                    \<and> name spec = PStr (basename filename)))"
proof -
  have no: "yields_no_name (map_of kvs (PStr ''name''))"
    using assms(3,4) by (simp add: yields_no_name_def)
  have "load_environment_yml fs load_string filename = load_environment_yml fs load_string' filename"
    using assms(1,2,5) spec_without_falsy_name [OF assms(3,4)]
    by (simp add: load_environment_yml_def exn_bind_def)
  moreover have "\<exists>spec. load_environment_yml fs load_string filename = Inr (Some spec)
                    \<and> name spec = PStr (basename p)"
    if "map_of kvs (PStr ''prefix'') = Some (PStr p)" "basename p \<noteq> []"
    using load_named [where load_string = load_string, OF assms(1,2)]
      name_from_prefix [OF no that(1)] that(2) by simp
  moreover have "\<exists>spec. load_environment_yml fs load_string filename = Inr (Some spec)
                    \<and> name spec = PStr (basename filename)"
    if "yields_no_name (map_of kvs (PStr ''prefix''))"
    using load_named [where load_string = load_string, OF assms(1,2)]
      name_from_filename [OF no that] by simp
  ultimately show ?thesis by blast
qed

theorem falsy_name_as_absent_witness:
  "map_of [(PStr ''name'', PStr []), (PStr ''prefix'', PStr ''/opt/envs/myenv'')] (PStr ''name'')
     = Some (PStr [])
   \<and> \<not> truthy (PStr [])
   \<and> load_environment_yml
        (single_file ''/proj/environment.yml'' ''{name: !!str , prefix: /opt/envs/myenv}'')
        (parser_table [(''{name: !!str , prefix: /opt/envs/myenv}'', empty_name_doc)])
        ''/proj/environment.yml''
      = load_environment_yml
        (single_file ''/proj/environment.yml'' ''{name: !!str , prefix: /opt/envs/myenv}'')
        (parser_table [(''{name: !!str , prefix: /opt/envs/myenv}'',
                        prefix_doc ''/opt/envs/myenv'')])
        ''/proj/environment.yml''
   \<and> (\<exists>spec. load_environment_yml
                (single_file ''/proj/environment.yml'' ''{name: !!str , prefix: /opt/envs/myenv}'')
                (parser_table [(''{name: !!str , prefix: /opt/envs/myenv}'', empty_name_doc)])
                ''/proj/environment.yml''
              = Inr (Some spec)
              \<and> name spec = PStr ''myenv'')"
proof -
  let ?text = "''{name: !!str , prefix: /opt/envs/myenv}''"
  let ?fs = "single_file ''/proj/environment.yml'' ?text"
  let ?kvs = "[(PStr ''name'', PStr []), (PStr ''prefix'', PStr ''/opt/envs/myenv'')]"
  have rd: "codecs_open_read ?fs ''/proj/environment.yml'' = Inr ?text"
    by (rule codecs_open_read_ascii) (simp_all add: single_file_def ord_def)
  have ps: "parser_table [(?text, empty_name_doc)] ?text = Inr (PDict ?kvs)"
    by (simp add: parser_table_def empty_name_doc_def)
  have nm: "map_of ?kvs (PStr ''name'') = Some (PStr [])" "\<not> truthy (PStr [])"
    by simp_all
  have ps': "parser_table [(?text, prefix_doc ''/opt/envs/myenv'')] ?text
             = Inr (PDict (filter (\<lambda>kv. fst kv \<noteq> PStr ''name'') ?kvs))"
    by (simp add: parser_table_def prefix_doc_def)
  have bn: "basename ''/opt/envs/myenv'' = ''myenv''"
    by (simp add: basename_def)
  note inst = falsy_name_as_absent
         [where load_string = "parser_table [(?text, empty_name_doc)]"
            and load_string' = "parser_table [(?text, prefix_doc ''/opt/envs/myenv'')]"
            and p = "''/opt/envs/myenv''", OF rd ps nm ps']
  from inst [THEN conjunct1] inst [THEN conjunct2, THEN conjunct1]
  show ?thesis using nm by (simp add: bn)
qed

subsection \<open>The sync check\<close>








subsection \<open>Termination of the matching loop\<close>

lemma longest_match_row_bounds:
  assumes "alo \<le> i" and "\<forall>j. j2len j \<le> i - alo"
    and "\<forall>j. new j \<le> Suc i - alo" and "alo \<le> besti"
    and "if bestsize = 0 then besti = alo else besti + bestsize \<le> Suc i"
  shows "case longest_match_row j2len i blo bhi js (new, besti, bestj, bestsize) of
           (new', besti', bestj', bestsize') \<Rightarrow>
             (\<forall>j. new' j \<le> Suc i - alo) \<and> alo \<le> besti'
             \<and> (if bestsize' = 0 then besti' = alo else besti' + bestsize' \<le> Suc i)"
  using assms(3-5)
proof (induction js arbitrary: new besti bestj bestsize)
  case Nil
  then show ?case by simp
next
  case (Cons j js)
  define k where "k = (if j = 0 then 0 else j2len (j - 1)) + 1"
  have "j2len (j - 1) \<le> i - alo" using assms(2) by blast
  then have k: "k \<le> Suc i - alo" "k \<noteq> 0"
    using assms(1) by (auto simp: k_def)
  show ?case
  proof (cases "j < blo \<or> bhi \<le> j")
    case True
    then show ?thesis using Cons by auto
  next
    case False
    have step: "longest_match_row j2len i blo bhi (j # js) (new, besti, bestj, bestsize)
                = longest_match_row j2len i blo bhi js
                    (new(j := k),
                     if bestsize < k then (i + 1 - k, j + 1 - k, k) else (besti, bestj, bestsize))"
      using False by (simp add: k_def Let_def)
    have new: "\<forall>j'. (new(j := k)) j' \<le> Suc i - alo"
      using Cons.prems(1) k(1) by simp
    show ?thesis
    proof (cases "bestsize < k")
      case True
      have "alo \<le> i + 1 - k" "if k = 0 then i + 1 - k = alo else i + 1 - k + k \<le> Suc i"
        using k assms(1) by auto
      from Cons.IH [OF new this, of "j + 1 - k"] True
      show ?thesis by (simp only: step if_True)
    next
      case nb: False
      from Cons.IH [OF new Cons.prems(2,3), of bestj] nb
      show ?thesis by (simp only: step if_False)
    qed
  qed
qed

lemma longest_match_scan_bounds:
  "case longest_match_scan a b alo ahi blo bhi of
     (j2len, besti, bestj, bestsize) \<Rightarrow>
       alo \<le> besti \<and> (if bestsize = 0 then besti = alo else besti + bestsize \<le> ahi)"
proof (cases "alo \<le> ahi")
  case False
  then show ?thesis by (simp add: longest_match_scan_def)
next
  case True
  have "case longest_match_scan a b alo n blo bhi of
          (j2len, besti, bestj, bestsize) \<Rightarrow>
            (\<forall>j. j2len j \<le> n - alo) \<and> alo \<le> besti
            \<and> (if bestsize = 0 then besti = alo else besti + bestsize \<le> n)"
    if "alo \<le> n" for n
    using that
  proof (induction n rule: dec_induct)
    case base
    then show ?case by (simp add: longest_match_scan_def)
  next
    case (step n)
    obtain j2len besti bestj bestsize where
      st: "longest_match_scan a b alo n blo bhi = (j2len, besti, bestj, bestsize)"
      by (metis prod_cases4)
    have scan: "longest_match_scan a b alo (Suc n) blo bhi
                = longest_match_row j2len n blo bhi (b2j b (a ! n)) (\<lambda>j. 0, besti, bestj, bestsize)"
      using step.hyps(1) st by (simp add: longest_match_scan_def)
    from step.IH st have ih: "\<forall>j. j2len j \<le> n - alo" "alo \<le> besti"
      "if bestsize = 0 then besti = alo else besti + bestsize \<le> n"
      by auto
    have "if bestsize = 0 then besti = alo else besti + bestsize \<le> Suc n"
      using ih(3) by (auto split: if_splits)
    from longest_match_row_bounds [OF step.hyps(1) ih(1) _ ih(2) this, of "\<lambda>j. 0" blo bhi]
    show ?case by (simp add: scan)
  qed
  from this [OF True] show ?thesis by (auto split: prod.splits)
qed

lemma extend_left_bounds:
  "(case st of (besti, bestj, bestsize) \<Rightarrow>
      alo \<le> besti \<and> (if bestsize = 0 then besti = alo else besti + bestsize \<le> ahi)) \<Longrightarrow>
   (case extend_left a b alo blo st of (i, j, k) \<Rightarrow> alo \<le> i \<and> (k \<noteq> 0 \<longrightarrow> i + k \<le> ahi))"
proof (induction a b alo blo st rule: extend_left.induct)
  case (1 a b alo blo besti bestj bestsize)
  show ?case
  proof (cases "alo < besti \<and> blo < bestj \<and> a ! (besti - 1) = b ! (bestj - 1)")
    case True
    with "1.prems" have "case (besti - 1, bestj - 1, bestsize + 1) of
        (besti, bestj, bestsize) \<Rightarrow>
          alo \<le> besti \<and> (if bestsize = 0 then besti = alo else besti + bestsize \<le> ahi)"
      by (auto split: if_splits)
    from "1.IH" [OF True this] True show ?thesis
      by (subst extend_left.simps) simp
  next
    case False
    with "1.prems" show ?thesis
      by (subst extend_left.simps) (auto split: if_splits)
  qed
qed

lemma extend_right_bounds:
  "(case st of (besti, bestj, bestsize) \<Rightarrow>
      alo \<le> besti \<and> (bestsize \<noteq> 0 \<longrightarrow> besti + bestsize \<le> ahi)) \<Longrightarrow>
   (case extend_right a b ahi bhi st of (i, j, k) \<Rightarrow> alo \<le> i \<and> (k \<noteq> 0 \<longrightarrow> i + k \<le> ahi))"
proof (induction a b ahi bhi st rule: extend_right.induct)
  case (1 a b ahi bhi besti bestj bestsize)
  show ?case
  proof (cases "besti + bestsize < ahi \<and> bestj + bestsize < bhi
                \<and> a ! (besti + bestsize) = b ! (bestj + bestsize)")
    case True
    with "1.prems" have "case (besti, bestj, bestsize + 1) of
        (besti, bestj, bestsize) \<Rightarrow> alo \<le> besti \<and> (bestsize \<noteq> 0 \<longrightarrow> besti + bestsize \<le> ahi)"
      by auto
    from "1.IH" [OF True this] True show ?thesis
      by (subst extend_right.simps) simp
  next
    case False
    with "1.prems" show ?thesis
      by (subst extend_right.simps) auto
  qed
qed

lemma find_longest_match_bounds:
  assumes "find_longest_match a b alo ahi blo bhi = (i, j, k)"
  shows "alo \<le> i \<and> (k \<noteq> 0 \<longrightarrow> i + k \<le> ahi)"
proof -
  let ?scan = "snd (longest_match_scan a b alo ahi blo bhi)"
  from longest_match_scan_bounds
         [where a = a and b = b and alo = alo and ahi = ahi and blo = blo and bhi = bhi]
  have "case ?scan of (besti, bestj, bestsize) \<Rightarrow>
          alo \<le> besti \<and> (if bestsize = 0 then besti = alo else besti + bestsize \<le> ahi)"
    by (auto split: prod.splits)
  then have "case extend_left a b alo blo ?scan of (i, j, k) \<Rightarrow>
          alo \<le> i \<and> (k \<noteq> 0 \<longrightarrow> i + k \<le> ahi)"
    by (rule extend_left_bounds)
  then have "case extend_right a b ahi bhi (extend_left a b alo blo ?scan) of (i, j, k) \<Rightarrow>
          alo \<le> i \<and> (k \<noteq> 0 \<longrightarrow> i + k \<le> ahi)"
    by (rule extend_right_bounds)
  with assms show ?thesis by (simp add: find_longest_match_def)
qed

lemma queue_measure_decreases:
  assumes "find_longest_match a b alo ahi blo bhi = (i, j, k)" and "k \<noteq> 0"
  shows "sum_list (map (\<lambda>(alo, ahi, blo, bhi). 2 * (ahi - alo) + 1)
           ((if i + k < ahi \<and> j + k < bhi then [(i + k, ahi, j + k, bhi)] else [])
            @ (if alo < i \<and> blo < j then [(alo, i, blo, j)] else []) @ queue))
         < sum_list (map (\<lambda>(alo, ahi, blo, bhi). 2 * (ahi - alo) + 1)
             ((alo, ahi, blo, bhi) # queue))"
proof -
  from find_longest_match_bounds [OF assms(1)] assms(2)
  have b: "alo \<le> i" "i + k \<le> ahi" "0 < k" by auto
  then have "2 * (ahi - (i + k)) + 1 + (2 * (i - alo) + 1) < 2 * (ahi - alo) + 1"
    "2 * (ahi - (i + k)) + 1 < 2 * (ahi - alo) + 1"
    "2 * (i - alo) + 1 < 2 * (ahi - alo) + 1"
    by linarith+
  then show ?thesis by simp
qed

termination matching_blocks_loop
proof (relation "measure (\<lambda>(a, b, queue, blocks).
          sum_list (map (\<lambda>(alo, ahi, blo, bhi). 2 * (ahi - alo) + 1) queue))", goal_cases)
  case 1
  show ?case by simp
next
  case (2 a b alo ahi blo bhi queue matching_blocks x y xa ya)
  have "find_longest_match a b alo ahi blo bhi = (x, xa, ya)"
    using 2(1,2) by simp
  from queue_measure_decreases [OF this 2(3)] show ?case
    by (simp only: in_measure prod.case)
next
  case 3
  show ?case by simp
qed

declare matching_blocks_loop.simps [simp del]

subsection \<open>A sequence compared with itself\<close>

lemma longest_match_row_Cons:
  "blo \<le> j \<Longrightarrow> j < bhi \<Longrightarrow>
     longest_match_row j2len i blo bhi (j # js) (new, bi, bj, bs)
       = longest_match_row j2len i blo bhi js
           (new(j := kval j2len j),
            if bs < kval j2len j
            then (i + 1 - kval j2len j, j + 1 - kval j2len j, kval j2len j)
            else (bi, bj, bs))"
  by (simp add: Let_def kval_def)

lemma longest_match_row_append:
  "\<forall>j \<in> set js1. j < bhi \<Longrightarrow>
     longest_match_row j2len i blo bhi (js1 @ js2) st
       = longest_match_row j2len i blo bhi js2 (longest_match_row j2len i blo bhi js1 st)"
proof (induction js1 arbitrary: st)
  case Nil
  then show ?case by simp
next
  case (Cons j js1)
  obtain new bi bj bs where st: "st = (new, bi, bj, bs)"
    by (metis prod_cases4)
  from Cons show ?case by (simp add: st Let_def)
qed

lemma longest_match_row_keep:
  assumes "\<forall>j \<in> set js. blo \<le> j \<and> j < bhi \<and> kval j2len j \<le> bs"
  shows "longest_match_row j2len i blo bhi js (new, bi, bj, bs)
         = (\<lambda>j. if j \<in> set js then kval j2len j else new j, bi, bj, bs)"
  using assms
proof (induction js arbitrary: new)
  case Nil
  then show ?case by simp
next
  case (Cons j js)
  have upd: "(\<lambda>j'. if j' \<in> set js then kval j2len j' else (new(j := kval j2len j)) j')
        = (\<lambda>j'. if j' \<in> set (j # js) then kval j2len j' else new j')"
    by auto
  from Cons.prems have j: "blo \<le> j" "j < bhi" "\<not> bs < kval j2len j"
    and rest: "\<forall>j \<in> set js. blo \<le> j \<and> j < bhi \<and> kval j2len j \<le> bs"
    by auto
  show ?case
    by (simp only: longest_match_row_Cons [OF j(1,2)] j(3) if_False Cons.IH [OF rest] upd)
qed

lemma longest_match_row_single:
  assumes "blo \<le> j" "j < bhi"
  shows "longest_match_row j2len i blo bhi [j] (new, bi, bj, bs)
         = (new(j := kval j2len j),
            if bs < kval j2len j
            then (i + 1 - kval j2len j, j + 1 - kval j2len j, kval j2len j)
            else (bi, bj, bs))"
  by (simp only: longest_match_row_Cons [OF assms] longest_match_row.simps(1))


lemma longest_match_row_around:
  assumes js1: "\<forall>j \<in> set js1. blo \<le> j \<and> j < bhi \<and> kval j2len j \<le> bs"
    and mid: "blo \<le> m" "m < bhi"
    and js2: "\<forall>j \<in> set js2. blo \<le> j \<and> j < bhi \<and> kval j2len j \<le> max bs (kval j2len m)"
  shows "longest_match_row j2len i blo bhi (js1 @ [m] @ js2) (new, bi, bj, bs)
         = (\<lambda>j. if j \<in> set (js1 @ [m] @ js2) then kval j2len j else new j,
            if bs < kval j2len m
            then (i + 1 - kval j2len m, m + 1 - kval j2len m, kval j2len m)
            else (bi, bj, bs))"
proof -
  let ?k = "kval j2len"
  let ?new1 = "\<lambda>j. if j \<in> set js1 then ?k j else new j"
  have in1: "\<forall>j \<in> set js1. j < bhi" using js1 by blast
  have inm: "\<forall>j \<in> set [m]. j < bhi" using mid by simp
  have s1: "longest_match_row j2len i blo bhi js1 (new, bi, bj, bs) = (?new1, bi, bj, bs)"
    by (rule longest_match_row_keep [OF js1])
  have s2: "longest_match_row j2len i blo bhi [m] (?new1, bi, bj, bs)
            = (?new1(m := ?k m),
               if bs < ?k m then (i + 1 - ?k m, m + 1 - ?k m, ?k m) else (bi, bj, bs))"
    by (rule longest_match_row_single [OF mid])
  have fn: "(\<lambda>j. if j \<in> set js2 then ?k j else (?new1(m := ?k m)) j)
            = (\<lambda>j. if j \<in> set (js1 @ [m] @ js2) then ?k j else new j)"
    by auto
  have s3: "longest_match_row j2len i blo bhi js2
              (?new1(m := ?k m),
               if bs < ?k m then (i + 1 - ?k m, m + 1 - ?k m, ?k m) else (bi, bj, bs))
            = (\<lambda>j. if j \<in> set (js1 @ [m] @ js2) then ?k j else new j,
               if bs < ?k m then (i + 1 - ?k m, m + 1 - ?k m, ?k m) else (bi, bj, bs))"
  proof (cases "bs < ?k m")
    case True
    with js2 have "\<forall>j \<in> set js2. blo \<le> j \<and> j < bhi \<and> ?k j \<le> ?k m"
      by (auto simp: max_def)
    from longest_match_row_keep [OF this] True fn show ?thesis by simp
  next
    case False
    with js2 have "\<forall>j \<in> set js2. blo \<le> j \<and> j < bhi \<and> ?k j \<le> bs"
      by (auto simp: max_def)
    from longest_match_row_keep [OF this] False fn show ?thesis by simp
  qed
  show ?thesis
    by (simp only: longest_match_row_append [OF in1] longest_match_row_append [OF inm] s1 s2 s3)
qed

lemma diag_dprev: "diag a i = (if popular a (a ! i) then 0 else dprev a i + 1)"
  by (cases i) (simp_all add: dprev_def)

lemma diag_le: "diag a i \<le> i + 1"
  by (induction i) auto

lemma dprev_Suc [simp]: "dprev a (Suc i) = diag a i"
  by (simp add: dprev_def)

lemma b2j_split:
  assumes "i < length a" "\<not> popular a (a ! i)"
  shows "b2j a (a ! i) = filter (\<lambda>j. a ! j = a ! i) [0..<i] @ [i]
                          @ filter (\<lambda>j. a ! j = a ! i) [Suc i..<length a]"
proof -
  have "[0..<length a] = [0..<i] @ [i] @ [Suc i..<length a]"
  proof -
    from assms(1) obtain k where k: "length a = i + k" "0 < k"
      by (metis less_imp_add_positive)
    have "[0..<i + k] = [0..<i] @ [i..<i + k]"
      by (rule upt_add_eq_append) simp
    moreover have "[i..<i + k] = i # [Suc i..<i + k]"
      using k(2) by (simp add: upt_conv_Cons)
    ultimately show ?thesis by (simp add: k(1))
  qed
  then have "filter (\<lambda>j. a ! j = a ! i) [0..<length a]
             = filter (\<lambda>j. a ! j = a ! i) ([0..<i] @ [i] @ [Suc i..<length a])"
    by simp
  with assms(2) show ?thesis by (simp add: b2j_def)
qed


lemma self_row:
  assumes i: "i < length a" and inv: "self_inv a i (j2len, bi, bj, bs)"
  shows "self_inv a (Suc i)
           (longest_match_row j2len i 0 (length a) (b2j a (a ! i)) (\<lambda>j. 0, bi, bj, bs))"
proof (cases "popular a (a ! i)")
  case True
  then have "diag a i = 0" by (simp add: diag_dprev)
  with inv True show ?thesis
    by (auto simp: self_inv_def b2j_def less_Suc_eq)
next
  case False
  let ?P = "\<lambda>j. a ! j = a ! i"
  let ?js1 = "filter ?P [0..<i]"
  let ?js2 = "filter ?P [Suc i..<length a]"
  let ?k = "kval j2len"
  from inv have J1: "\<And>j. j2len j \<le> dprev a i" and J2: "\<And>j. j2len j \<le> diag a j"
    and J3: "0 < i \<Longrightarrow> j2len (i - 1) = diag a (i - 1)"
    and B: "bi = bj" "bi + bs \<le> i" "\<And>i'. i' < i \<Longrightarrow> diag a i' \<le> bs"
    by (auto simp: self_inv_def)
  have di: "diag a i = dprev a i + 1"
    using False by (simp add: diag_dprev)
  have "(if i = 0 then 0 else j2len (i - 1)) = dprev a i"
    using J3 by (simp add: dprev_def)
  then have ki: "?k i = diag a i"
    by (simp only: kval_def di)
  have k_le_i: "?k j \<le> diag a i" for j
    using J1 [of "j - 1"] by (simp add: kval_def di)
  have k_le_j: "?k j \<le> diag a j" if "?P j" for j
  proof -
    have "diag a j = dprev a j + 1"
      using False that by (simp add: diag_dprev)
    moreover have "(if j = 0 then 0 else j2len (j - 1)) \<le> dprev a j"
      using J2 [of "j - 1"] by (simp add: dprev_def)
    ultimately show ?thesis by (simp add: kval_def)
  qed
  have js1: "\<forall>j \<in> set ?js1. 0 \<le> j \<and> j < length a \<and> ?k j \<le> bs"
  proof
    fix j assume "j \<in> set ?js1"
    then have "j < i" "?P j" by auto
    with k_le_j [of j] B(3) [of j] i show "0 \<le> j \<and> j < length a \<and> ?k j \<le> bs"
      by auto
  qed
  have js2: "\<forall>j \<in> set ?js2. 0 \<le> j \<and> j < length a \<and> ?k j \<le> max bs (?k i)"
  proof
    fix j assume "j \<in> set ?js2"
    then have "j < length a" by simp
    moreover have "?k j \<le> ?k i" using k_le_i [of j] by (simp only: ki)
    ultimately show "0 \<le> j \<and> j < length a \<and> ?k j \<le> max bs (?k i)"
      by (simp add: le_max_iff_disj)
  qed
  define new where "new = (\<lambda>j. if j \<in> set (?js1 @ [i] @ ?js2) then ?k j else 0)"
  have row: "longest_match_row j2len i 0 (length a) (b2j a (a ! i)) (\<lambda>j. 0, bi, bj, bs)
        = (new, if bs < ?k i then (i + 1 - ?k i, i + 1 - ?k i, ?k i) else (bi, bj, bs))"
    unfolding b2j_split [OF i False] new_def
    by (rule longest_match_row_around [OF js1 _ i js2]) simp
  have in_js: "j \<in> set (?js1 @ [i] @ ?js2) \<Longrightarrow> ?P j" for j
    by auto
  have new1: "new j \<le> diag a i" for j
    using k_le_i by (simp add: new_def)
  have new2: "new j \<le> diag a j" for j
    using k_le_j [of j] in_js [of j]
    by (cases "j \<in> set (?js1 @ [i] @ ?js2)") (simp_all only: new_def if_True if_False le0)
  have new3: "new i = diag a i"
    using ki by (simp add: new_def)
  show ?thesis
  proof (cases "bs < ?k i")
    case True
    have sum: "i + 1 - ?k i + ?k i \<le> Suc i"
      using diag_le [of a i] ki by simp
    have all: "\<forall>i' < Suc i. diag a i' \<le> ?k i"
    proof (intro allI impI)
      fix i' assume lt: "i' < Suc i"
      show "diag a i' \<le> ?k i"
      proof (cases "i' = i")
        case True
        then show ?thesis by (simp add: ki)
      next
        case False
        with lt have "i' < i" by simp
        from B(3) [OF this] \<open>bs < ?k i\<close> show ?thesis by linarith
      qed
    qed
    have "self_inv a (Suc i) (new, i + 1 - ?k i, i + 1 - ?k i, ?k i)"
      unfolding self_inv_def prod.case
      using new1 new2 new3 sum all by simp
    with True show ?thesis by (simp only: row if_True)
  next
    case nb: False
    have all: "\<forall>i' < Suc i. diag a i' \<le> bs"
    proof (intro allI impI)
      fix i' assume lt: "i' < Suc i"
      show "diag a i' \<le> bs"
      proof (cases "i' = i")
        case True
        with nb ki show ?thesis by simp
      next
        case False
        with lt have "i' < i" by simp
        then show ?thesis by (rule B(3))
      qed
    qed
    have "self_inv a (Suc i) (new, bi, bj, bs)"
      unfolding self_inv_def prod.case
      using new1 new2 new3 all B(1,2) by simp
    with nb show ?thesis by (simp only: row if_False)
  qed
qed

lemma self_scan:
  "n \<le> length a \<Longrightarrow> self_inv a n (longest_match_scan a a 0 n 0 (length a))"
proof (induction n)
  case 0
  then show ?case
    by (simp add: longest_match_scan_def self_inv_def dprev_def)
next
  case (Suc n)
  obtain j2len bi bj bs where
    st: "longest_match_scan a a 0 n 0 (length a) = (j2len, bi, bj, bs)"
    by (metis prod_cases4)
  have scan: "longest_match_scan a a 0 (Suc n) 0 (length a)
              = longest_match_row j2len n 0 (length a) (b2j a (a ! n)) (\<lambda>j. 0, bi, bj, bs)"
    using st by (simp add: longest_match_scan_def)
  from Suc have "n < length a" "self_inv a n (j2len, bi, bj, bs)"
    by (simp_all add: st)
  then show ?case
    unfolding scan by (rule self_row)
qed

lemma extend_left_self: "extend_left a a 0 0 (p, p, m) = (0, 0, p + m)"
proof (induction p arbitrary: m)
  case 0
  show ?case by (subst extend_left.simps) simp
next
  case (Suc p)
  show ?case by (subst extend_left.simps) (simp add: Suc)
qed

lemma extend_right_self:
  "s \<le> length a \<Longrightarrow> extend_right a a (length a) (length a) (0, 0, s) = (0, 0, length a)"
proof (induction "length a - s" arbitrary: s)
  case 0
  then show ?case by (subst extend_right.simps) simp
next
  case (Suc d)
  then have "s < length a" "d = length a - (s + 1)" "s + 1 \<le> length a" by auto
  with Suc.hyps(1) [of "s + 1"] show ?case
    by (subst extend_right.simps) simp
qed

lemma find_longest_match_self:
  "find_longest_match a a 0 (length a) 0 (length a) = (0, 0, length a)"
proof -
  obtain j2len bi bj bs where
    st: "longest_match_scan a a 0 (length a) 0 (length a) = (j2len, bi, bj, bs)"
    by (metis prod_cases4)
  from self_scan [of "length a" a] st have "bi = bj" "bi + bs \<le> length a"
    by (simp_all add: self_inv_def)
  then show ?thesis
    by (simp add: find_longest_match_def st extend_left_self extend_right_self)
qed


lemma matching_blocks_loop_self:
  "matching_blocks_loop a a [(0, length a, 0, length a)] []
     = (if length a = 0 then [] else [(0, 0, length a)])"
  by (simp add: matching_blocks_loop.simps find_longest_match_self)

lemma get_matching_blocks_self:
  "get_matching_blocks a a
     = (if length a = 0 then [(0, 0, 0)] else [(0, 0, length a), (length a, length a, 0)])"
  by (simp add: get_matching_blocks_def Let_def matching_blocks_loop_self collapse_step_def)

lemma get_opcodes_self:
  "get_opcodes a a = (if length a = 0 then [] else [(Equal, 0, length a, 0, length a)])"
  by (simp add: get_opcodes_def get_matching_blocks_self opcode_step_def Let_def)

lemma ndiff_self: "ndiff fancy_replace a a = map (\<lambda>line. CHR '' '' # CHR '' '' # line) a"
  by (simp add: ndiff_def compare_def get_opcodes_self dump_def)

subsection \<open>The diff of a spec with itself\<close>

lemma join_empty_iff:
  "\<forall>x \<in> set xs. x \<noteq> [] \<Longrightarrow> join sep xs = [] \<longleftrightarrow> xs = []"
  by (induction sep xs rule: join.induct) auto

lemma unchanged_lines:
  "map (\<lambda>line. CHR '' '' # CHR '' '' # line) xs = map (\<lambda>p. ''  '' @ p) xs"
  by (induction xs) simp_all

lemma indented_unchanged_lines:
  "map (\<lambda>x. ''    '' @ x) (map (\<lambda>p. ''  '' @ p) xs) = map (\<lambda>c. ''      '' @ c) xs"
  by (induction xs) simp_all

lemma section_lines:
  "(if map (\<lambda>p. ''  '' @ p) xs \<noteq> []
    then header # map (\<lambda>x. ''    '' @ x) (map (\<lambda>p. ''  '' @ p) xs)
    else map (\<lambda>p. ''  '' @ p) xs)
   = (if xs = [] then [] else header # map (\<lambda>c. ''      '' @ c) xs)"
  by (cases "xs = []") (simp_all only: indented_unchanged_lines map_is_Nil_conv list.map
      if_True if_False not_True_eq_False not_False_eq_True simp_thms)

lemma diff_from_self_lines:
  assumes "channels s = Inr chans" and "conda_packages s = Inr conda"
    and "pip_packages s = Inr pips"
  shows "diff_from fancy_replace s s =
     Inr (join [CHR 0x0A]
       ((if chans = [] then [] else ''  channels:'' # map (\<lambda>c. ''      '' @ c) chans)
        @ map (\<lambda>p. ''  '' @ p) conda
        @ (if pips = [] then [] else ''  pip:'' # map (\<lambda>p. ''      '' @ p) pips)))"
  unfolding diff_from_def assms exn_bind_def sum.case Let_def ndiff_self unchanged_lines
    section_lines ..

text \<open>
  Claim C2, as stated, fails: the diff of a spec with itself lists every channel and
  package as an unchanged line, under the section headers, whatever the formatter of
  replaced blocks is.
\<close>

theorem diff_from_self_counterexample:
  "EnvSpec_init (PStr ''default'') [''numpy''] [''conda-forge''] [''flask''] PNone PNone None
     = Inr diff_spec
   \<and> (\<forall>fancy_replace.
        diff_from fancy_replace diff_spec diff_spec
          = Inr (''  channels:'' @ [CHR 0x0A] @ ''      conda-forge'' @ [CHR 0x0A] @ ''  numpy''
                 @ [CHR 0x0A] @ ''  pip:'' @ [CHR 0x0A] @ ''      flask''))"
proof -
  have "channels diff_spec = Inr [''conda-forge'']" "conda_packages diff_spec = Inr [''numpy'']"
    "pip_packages diff_spec = Inr [''flask'']"
    by (simp_all add: diff_spec_def channels_def conda_packages_def pip_packages_def)
  from diff_from_self_lines [OF this] show ?thesis
    by (simp add: EnvSpec_init_def diff_spec_def)
qed

text \<open>
  Claim C2, amended. For every \<open>EnvSpec\<close> without a parent object, whose effective
  sequences are its own ones, the diff against itself consists of the unchanged lines
  only: the header \<^verbatim>\<open>channels:\<close> and every channel, indented, when there are channels;
  every conda package with the prefix of two blanks; the header \<^verbatim>\<open>pip:\<close> and every pip
  package, indented, when there are pip packages. A section is left out only when its
  sequence is empty, and the diff is the empty string exactly when all three sequences
  are empty.
\<close>

theorem diff_from_self:
  assumes "inherit_from s = None"
  shows "diff_from fancy_replace s s =
     Inr (join [CHR 0x0A]
       ((if own_channels s = [] then []
         else ''  channels:'' # map (\<lambda>c. ''      '' @ c) (own_channels s))
        @ map (\<lambda>p. ''  '' @ p) (own_conda_packages s)
        @ (if own_pip_packages s = [] then []
           else ''  pip:'' # map (\<lambda>p. ''      '' @ p) (own_pip_packages s))))
   \<and> (diff_from fancy_replace s s = Inr []
        \<longleftrightarrow> own_channels s = [] \<and> own_conda_packages s = [] \<and> own_pip_packages s = [])
   \<and> channels s = Inr (own_channels s)
   \<and> conda_packages s = Inr (own_conda_packages s)
   \<and> pip_packages s = Inr (own_pip_packages s)"
proof -
  let ?lines = "(if own_channels s = [] then []
         else ''  channels:'' # map (\<lambda>c. ''      '' @ c) (own_channels s))
        @ map (\<lambda>p. ''  '' @ p) (own_conda_packages s)
        @ (if own_pip_packages s = [] then []
           else ''  pip:'' # map (\<lambda>p. ''      '' @ p) (own_pip_packages s))"
  note eff = effective_no_parent [OF assms]
  have lines: "diff_from fancy_replace s s = Inr (join [CHR 0x0A] ?lines)"
    by (rule diff_from_self_lines [OF eff(3) eff(1) eff(2)])
  have "\<forall>x \<in> set ?lines. x \<noteq> []" by auto
  then have "join [CHR 0x0A] ?lines = [] \<longleftrightarrow> ?lines = []"
    by (rule join_empty_iff)
  moreover have "?lines = []
    \<longleftrightarrow> own_channels s = [] \<and> own_conda_packages s = [] \<and> own_pip_packages s = []"
    by simp
  ultimately have "diff_from fancy_replace s s = Inr []
    \<longleftrightarrow> own_channels s = [] \<and> own_conda_packages s = [] \<and> own_pip_packages s = []"
    by (simp only: lines sum.inject)
  with lines eff show ?thesis by (simp only: simp_thms)
qed

theorem diff_from_self_witness:
  "inherit_from diff_spec = None
   \<and> inherit_from known_default = None
   \<and> diff_from plain_replace diff_spec diff_spec \<noteq> Inr []
   \<and> channels diff_spec = Inr [''conda-forge'']
   \<and> diff_from plain_replace known_default known_default = Inr ''  numpy''"
proof -
  have a: "inherit_from diff_spec = None" "inherit_from known_default = None"
    by (simp_all add: diff_spec_def known_default_def)
  have b: "own_channels diff_spec = [''conda-forge'']"
    "own_channels known_default = []" "own_conda_packages known_default = [''numpy'']"
    "own_pip_packages known_default = []"
    by (simp_all add: diff_spec_def known_default_def)
  from diff_from_self [OF a(1), of plain_replace, THEN conjunct2]
       diff_from_self [OF a(2), of plain_replace, THEN conjunct1]
  show ?thesis using a by (simp add: b)
qed

end
